theory Spec2Isabelle
  imports Main "HOL-Library.Sublist" "HOL-Library.Char_ord" "HOL-Library.List_Lexorder"
begin

section \<open>Data model\<close>

text \<open>
  A page as the Confluence client reports it. The fields are the ones the change
  detector and the page storage read: \<^verbatim>\<open>page.id\<close>, \<^verbatim>\<open>page.title\<close>,
  \<^verbatim>\<open>page.version.number\<close>, \<^verbatim>\<open>page.space.key\<close> and the optional
  \<^verbatim>\<open>page._links.webui\<close>.
\<close>

record confluence_page =
  pg_id :: string
  pg_title :: string
  pg_version_number :: int
  pg_space_key :: string
  pg_links_webui :: "string option"

text \<open>
  A row of the table \<^verbatim>\<open>synced_pages\<close>, with the column names of the schema.
  \<^verbatim>\<open>file_path\<close> is optional because \<^verbatim>\<open>fileExists\<close> tests it for presence.
\<close>

record synced_page =
  page_id :: string
  space_key :: string
  title :: string
  version :: int
  last_synced :: string
  file_path :: "string option"
  file_search_store_name :: "string option"
  url :: "string option"

type_synonym store = "synced_page list"

section \<open>The record store\<close>

text \<open>
  Modelled from the spec: the record store \<^verbatim>\<open>db\<close> of \<^verbatim>\<open>src/utils/database.js\<close>,
  which is imported by the change detector and the page storage but is not among the
  sources. The specification gives its contract (\<^verbatim>\<open>get(id)\<close>,
  \<^verbatim>\<open>getByCollection(collectionKey)\<close>, \<^verbatim>\<open>getAll()\<close>, \<^verbatim>\<open>upsert(record)\<close>,
  \<^verbatim>\<open>delete(id)\<close>, at most one record per id); the task description of the database
  gives the SQL. The table is the list of its rows in insertion order.
\<close>

definition getPage :: "store \<Rightarrow> string \<Rightarrow> synced_page option" where
  "getPage db pageId = find (\<lambda>r. page_id r = pageId) db"

definition getPagesBySpace :: "store \<Rightarrow> string \<Rightarrow> synced_page list" where
  "getPagesBySpace db spaceKey = filter (\<lambda>r. space_key r = spaceKey) db"

definition getAllPages :: "store \<Rightarrow> synced_page list" where
  "getAllPages db = rev (sort_key last_synced db)"

record upsert_args =
  u_pageId :: string
  u_spaceKey :: string
  u_title :: string
  u_version :: int
  u_lastSynced :: string
  u_filePath :: "string option"
  u_fileSearchStoreName :: "string option"
  u_url :: "string option"

definition row_of :: "upsert_args \<Rightarrow> synced_page" where
  "row_of a =
     \<lparr>page_id = u_pageId a, space_key = u_spaceKey a, title = u_title a,
      version = u_version a, last_synced = u_lastSynced a, file_path = u_filePath a,
      file_search_store_name = u_fileSearchStoreName a, url = u_url a\<rparr>"

definition upsertPage :: "store \<Rightarrow> upsert_args \<Rightarrow> store" where
  "upsertPage db a =
     (if \<exists>r \<in> set db. page_id r = u_pageId a
      then map (\<lambda>r. if page_id r = u_pageId a then row_of a else r) db
      else db @ [row_of a])"

definition deletePage :: "store \<Rightarrow> string \<Rightarrow> store" where
  "deletePage db pageId = filter (\<lambda>r. page_id r \<noteq> pageId) db"

section \<open>Change detector: classification\<close>

text \<open>
  \<^verbatim>\<open>hasPageChanged\<close>: a greater remote version number, or else a different title.
\<close>

definition hasPageChanged :: "confluence_page \<Rightarrow> synced_page \<Rightarrow> bool" where
  "hasPageChanged confluencePage syncedPage =
     (if pg_version_number confluencePage > version syncedPage then True
      else if pg_title confluencePage \<noteq> title syncedPage then True
      else False)"

record stats =
  st_total :: nat
  st_new :: nat
  st_updated :: nat
  st_unchanged :: nat

text \<open>
  The state of the loop of \<^verbatim>\<open>detectChanges\<close>: the list being built, the counters
  that are logged, and the store the loop queries.
\<close>

record detect_state =
  changedPages :: "confluence_page list"
  dstats :: stats
  dstore :: store

definition detectChanges_step :: "confluence_page \<Rightarrow> detect_state \<Rightarrow> detect_state" where
  "detectChanges_step page s =
     (case getPage (dstore s) (pg_id page) of
        None \<Rightarrow>
          s\<lparr>changedPages := changedPages s @ [page],
            dstats := (dstats s)\<lparr>st_new := st_new (dstats s) + 1\<rparr>\<rparr>
      | Some syncedPage \<Rightarrow>
          if hasPageChanged page syncedPage
          then s\<lparr>changedPages := changedPages s @ [page],
                 dstats := (dstats s)\<lparr>st_updated := st_updated (dstats s) + 1\<rparr>\<rparr>
          else s\<lparr>dstats := (dstats s)\<lparr>st_unchanged := st_unchanged (dstats s) + 1\<rparr>\<rparr>)"

definition detectChanges_run :: "store \<Rightarrow> confluence_page list \<Rightarrow> detect_state" where
  "detectChanges_run db confluencePages =
     fold detectChanges_step confluencePages
       \<lparr>changedPages = [],
        dstats = \<lparr>st_total = length confluencePages, st_new = 0, st_updated = 0,
                  st_unchanged = 0\<rparr>,
        dstore = db\<rparr>"

definition detectChanges :: "store \<Rightarrow> confluence_page list \<Rightarrow> confluence_page list" where
  "detectChanges db confluencePages = changedPages (detectChanges_run db confluencePages)"

text \<open>
  The classification of one page is the branch of the loop body it takes, named after
  the counter that branch increments.
\<close>

datatype classification = NEW | UPDATED | UNCHANGED

definition classify :: "store \<Rightarrow> confluence_page \<Rightarrow> classification" where
  "classify db page =
     (case getPage db (pg_id page) of
        None \<Rightarrow> NEW
      | Some syncedPage \<Rightarrow> if hasPageChanged page syncedPage then UPDATED else UNCHANGED)"

section \<open>Change detector: deleted pages\<close>

text \<open>
  \<^verbatim>\<open>[...new Set(xs)]\<close>: the distinct elements in the order of their first occurrence.
\<close>

definition unique :: "'a list \<Rightarrow> 'a list" where
  "unique xs = rev (remdups (rev xs))"

definition detectDeletedPages :: "store \<Rightarrow> confluence_page list \<Rightarrow> synced_page list" where
  "detectDeletedPages db confluencePages =
     (let spaceKeys = unique (map pg_space_key confluencePages);
          syncedPages = concat (map (getPagesBySpace db) spaceKeys);
          confluencePageIds = map pg_id confluencePages
      in filter (\<lambda>syncedPage. page_id syncedPage \<notin> set confluencePageIds) syncedPages)"

definition detectDeletedPagesInSpace ::
  "store \<Rightarrow> string \<Rightarrow> confluence_page list \<Rightarrow> synced_page list" where
  "detectDeletedPagesInSpace db spaceKey confluencePages =
     (let syncedPages = getPagesBySpace db spaceKey;
          confluencePageIds = map pg_id confluencePages
      in filter (\<lambda>syncedPage. page_id syncedPage \<notin> set confluencePageIds) syncedPages)"

text \<open>
  The deletion stage of a run, as far as the store goes: the record of every page that
  the deletion detection reported is deleted.
\<close>

definition apply_deletions :: "store \<Rightarrow> synced_page list \<Rightarrow> store" where
  "apply_deletions db deleted = fold (\<lambda>r d. deletePage d (page_id r)) deleted db"

section \<open>The file system\<close>

text \<open>
  The part of the file system the code touches through \<^verbatim>\<open>fs\<close> and \<^verbatim>\<open>path\<close>:
  the regular files (path and content) and the directories. Paths are normalised and
  carry no trailing separator, so that \<^verbatim>\<open>path.join(dir, file)\<close> puts one separator
  between its operands. \<^verbatim>\<open>fs.existsSync\<close> never raises and is false for the empty
  path. A directory lists its files before its directories; the order is the operating
  system's. An error of the file system is told by its code and description.
\<close>

record filesystem =
  fs_files :: "(string \<times> string) list"
  fs_dirs :: "string list"

definition path_join :: "string \<Rightarrow> string \<Rightarrow> string" where
  "path_join dir file = dir @ ''/'' @ file"

definition dirname :: "string \<Rightarrow> string" where
  "dirname p = rev (drop 1 (dropWhile (\<lambda>c. c \<noteq> CHR ''/'') (rev p)))"

definition existsSync :: "filesystem \<Rightarrow> string \<Rightarrow> bool" where
  "existsSync fs p = (p \<noteq> [] \<and> (p \<in> set (map fst (fs_files fs)) \<or> p \<in> set (fs_dirs fs)))"

definition isDirectory :: "filesystem \<Rightarrow> string \<Rightarrow> bool" where
  "isDirectory fs p = (p \<in> set (fs_dirs fs))"

definition child_name :: "string \<Rightarrow> string \<Rightarrow> string option" where
  "child_name dir p =
     (let name = drop (Suc (length dir)) p
      in if prefix (dir @ ''/'') p \<and> name \<noteq> [] \<and> CHR ''/'' \<notin> set name
         then Some name else None)"

definition readdirSync :: "filesystem \<Rightarrow> string \<Rightarrow> string list" where
  "readdirSync fs dir = List.map_filter (child_name dir) (map fst (fs_files fs) @ fs_dirs fs)"

definition endsWith :: "string \<Rightarrow> string \<Rightarrow> bool" where
  "endsWith s e = suffix e s"

text \<open>
  What can make a write to the store or to the disk raise lies outside the program
  (a locked database, a full disk, missing permissions). It is a parameter: for each
  operation, the message of the error it raises on an argument, if it raises.
\<close>

record faults =
  db_delete_fault :: "string \<Rightarrow> string option"
  db_upsert_fault :: "string \<Rightarrow> string option"
  unlink_fault :: "string \<Rightarrow> string option"
  write_fault :: "string \<Rightarrow> string option"

definition unlinkSync :: "faults \<Rightarrow> filesystem \<Rightarrow> string \<Rightarrow> string + filesystem" where
  "unlinkSync F fs p =
     (case unlink_fault F p of
        Some msg \<Rightarrow> Inl msg
      | None \<Rightarrow>
          if p \<in> set (fs_dirs fs) then Inl ''EISDIR: illegal operation on a directory''
          else if p \<notin> set (map fst (fs_files fs)) then Inl ''ENOENT: no such file or directory''
          else Inr (fs\<lparr>fs_files := filter (\<lambda>f. fst f \<noteq> p) (fs_files fs)\<rparr>))"

definition writeFileSync ::
  "faults \<Rightarrow> filesystem \<Rightarrow> string \<Rightarrow> string \<Rightarrow> string + filesystem" where
  "writeFileSync F fs p content =
     (case write_fault F p of
        Some msg \<Rightarrow> Inl msg
      | None \<Rightarrow>
          if p \<in> set (fs_dirs fs) then Inl ''EISDIR: illegal operation on a directory''
          else if dirname p \<notin> set (fs_dirs fs) then Inl ''ENOENT: no such file or directory''
          else Inr (fs\<lparr>fs_files := filter (\<lambda>f. fst f \<noteq> p) (fs_files fs) @ [(p, content)]\<rparr>))"

text \<open>The store and the disk together; the store operations that can raise.\<close>

record world =
  w_db :: store
  w_fs :: filesystem

definition db_deletePage :: "faults \<Rightarrow> store \<Rightarrow> string \<Rightarrow> string + store" where
  "db_deletePage F db pageId =
     (case db_delete_fault F pageId of
        Some msg \<Rightarrow> Inl msg
      | None \<Rightarrow> Inr (deletePage db pageId))"

definition db_upsertPage :: "faults \<Rightarrow> store \<Rightarrow> upsert_args \<Rightarrow> string + store" where
  "db_upsertPage F db a =
     (case db_upsert_fault F (u_pageId a) of
        Some msg \<Rightarrow> Inl msg
      | None \<Rightarrow> Inr (upsertPage db a))"

section \<open>Change detector: drift between the store and the disk\<close>

definition fileExists :: "filesystem \<Rightarrow> synced_page \<Rightarrow> bool" where
  "fileExists fs syncedPage =
     (case file_path syncedPage of
        None \<Rightarrow> False
      | Some p \<Rightarrow> if p = [] then False else existsSync fs p)"

definition findMissingFiles :: "world \<Rightarrow> synced_page list" where
  "findMissingFiles w = filter (\<lambda>page. \<not> fileExists (w_fs w) page) (getAllPages (w_db w))"

definition max_length :: "string list \<Rightarrow> nat" where
  "max_length ps = foldr (\<lambda>p m. max (length p) m) ps 0"

text \<open>
  The recursive closure \<^verbatim>\<open>findMarkdownFiles\<close> of \<^verbatim>\<open>findOrphanedFiles\<close>; the files
  it pushes are returned in the order of the pushes.
\<close>

function findMarkdownFiles :: "filesystem \<Rightarrow> string option list \<Rightarrow> string \<Rightarrow> string list" where
  "findMarkdownFiles fs syncedFilePaths dir =
     concat (map (\<lambda>file.
        if isDirectory fs (path_join dir file)
        then findMarkdownFiles fs syncedFilePaths (path_join dir file)
        else if endsWith file ''.md''
             then (if Some (path_join dir file) \<notin> set syncedFilePaths
                   then [path_join dir file] else [])
             else [])
       (readdirSync fs dir))"
  by pat_completeness auto
termination
proof (relation "measure (\<lambda>(fs, syncedFilePaths, dir). Suc (max_length (fs_dirs fs)) - length dir)")
  show "wf (measure (\<lambda>(fs, syncedFilePaths, dir). Suc (max_length (fs_dirs fs)) - length dir))"
    by simp
next
  fix fs :: filesystem and syncedFilePaths :: "string option list" and dir entry :: string
  assume d: "isDirectory fs (path_join dir entry)"
  have bound: "p \<in> set ps \<Longrightarrow> length p \<le> max_length ps" for p :: string and ps
    by (induction ps) (auto simp: max_length_def)
  have "length (path_join dir entry) \<le> max_length (fs_dirs fs)"
    using d bound by (simp add: isDirectory_def)
  moreover have "length dir < length (path_join dir entry)"
    by (simp add: path_join_def)
  ultimately show "((fs, syncedFilePaths, path_join dir entry), (fs, syncedFilePaths, dir))
      \<in> measure (\<lambda>(fs, syncedFilePaths, dir). Suc (max_length (fs_dirs fs)) - length dir)"
    by simp
qed

text \<open>
  \<^verbatim>\<open>findOrphanedFiles\<close>. Within the walk every directory read is a directory and every
  entry examined exists; only the first \<^verbatim>\<open>readdirSync\<close> can raise, when the content
  directory is a regular file.
\<close>

definition findOrphanedFiles :: "world \<Rightarrow> string \<Rightarrow> string + string list" where
  "findOrphanedFiles w contentDir =
     (if \<not> existsSync (w_fs w) contentDir then Inr []
      else if \<not> isDirectory (w_fs w) contentDir then Inl ''ENOTDIR: not a directory''
      else Inr (findMarkdownFiles (w_fs w) (map file_path (getAllPages (w_db w))) contentDir))"

section \<open>Change detector: cleanup\<close>

datatype cleanup_error = PageError string string | FileError string string

record cleanup_results =
  deletedPages :: nat
  deletedFiles :: nat
  orphanedFiles :: nat
  errors :: "cleanup_error list"

text \<open>
  The body of the \<^verbatim>\<open>try\<close> block for one page: the message of the error that left
  the block, if one did, and the state the block was left with.
\<close>

definition cleanup_try ::
  "faults \<Rightarrow> synced_page \<Rightarrow> world \<times> cleanup_results
     \<Rightarrow> string option \<times> world \<times> cleanup_results" where
  "cleanup_try F page s =
     (let w = fst s; results = snd s in
      case db_deletePage F (w_db w) (page_id page) of
        Inl msg \<Rightarrow> (Some msg, w, results)
      | Inr db' \<Rightarrow>
          let w1 = w\<lparr>w_db := db'\<rparr>;
              results1 = results\<lparr>deletedPages := deletedPages results + 1\<rparr>
          in (case file_path page of
                None \<Rightarrow> (None, w1, results1)
              | Some fp \<Rightarrow>
                  if fp \<noteq> [] \<and> existsSync (w_fs w1) fp
                  then (case unlinkSync F (w_fs w1) fp of
                          Inl msg \<Rightarrow> (Some msg, w1, results1)
                        | Inr fs' \<Rightarrow>
                            (None, w1\<lparr>w_fs := fs'\<rparr>,
                             results1\<lparr>deletedFiles := deletedFiles results1 + 1\<rparr>))
                  else (None, w1, results1)))"

definition cleanup_page ::
  "faults \<Rightarrow> synced_page \<Rightarrow> world \<times> cleanup_results \<Rightarrow> world \<times> cleanup_results" where
  "cleanup_page F page s =
     (case cleanup_try F page s of
        (None, s') \<Rightarrow> s'
      | (Some msg, w', results') \<Rightarrow>
          (w', results'\<lparr>errors := errors results' @ [PageError (page_id page) msg]\<rparr>))"

definition cleanup_pages ::
  "faults \<Rightarrow> synced_page list \<Rightarrow> world \<times> cleanup_results \<Rightarrow> world \<times> cleanup_results" where
  "cleanup_pages F pagesToDelete s = fold (cleanup_page F) pagesToDelete s"

definition cleanup_orphan ::
  "faults \<Rightarrow> string \<Rightarrow> world \<times> cleanup_results \<Rightarrow> world \<times> cleanup_results" where
  "cleanup_orphan F filePath s =
     (let w = fst s; results = snd s in
      case unlinkSync F (w_fs w) filePath of
        Inr fs' \<Rightarrow> (w\<lparr>w_fs := fs'\<rparr>, results\<lparr>orphanedFiles := orphanedFiles results + 1\<rparr>)
      | Inl msg \<Rightarrow> (w, results\<lparr>errors := errors results @ [FileError filePath msg]\<rparr>))"

definition initial_results :: cleanup_results where
  "initial_results = \<lparr>deletedPages = 0, deletedFiles = 0, orphanedFiles = 0, errors = []\<rparr>"

definition cleanup ::
  "faults \<Rightarrow> world \<Rightarrow> synced_page list \<Rightarrow> string \<Rightarrow> (string + cleanup_results) \<times> world" where
  "cleanup F w pagesToDelete contentDir =
     (let s1 = cleanup_pages F pagesToDelete (w, initial_results)
      in case findOrphanedFiles (fst s1) contentDir of
           Inl e \<Rightarrow> (Inl e, fst s1)
         | Inr orphaned \<Rightarrow>
             (let s2 = fold (cleanup_orphan F) orphaned s1 in (Inr (snd s2), fst s2)))"

section \<open>Page storage\<close>

record config =
  cfg_contentDir :: string
  cfg_baseUrl :: string
  cfg_maxPagesPerSync :: int

text \<open>
  A character is a UTF-16 code unit; the model has the code units below 256. The
  white space class of the regular expressions is then tab, line feed, vertical tab,
  form feed, carriage return, space and no-break space, and \<^verbatim>\<open>toLowerCase\<close> acts on
  the capital letters of ASCII and of Latin-1.
\<close>

definition is_space :: "char \<Rightarrow> bool" where
  "is_space c = ((of_char c :: nat) \<in> {9, 10, 11, 12, 13, 32, 160})"

definition is_word :: "char \<Rightarrow> bool" where
  "is_word c =
     (let n = (of_char c :: nat)
      in (97 \<le> n \<and> n \<le> 122) \<or> (65 \<le> n \<and> n \<le> 90) \<or> (48 \<le> n \<and> n \<le> 57)
         \<or> c = CHR ''-'' \<or> c = CHR ''_'')"

definition toLowerCase_char :: "char \<Rightarrow> char" where
  "toLowerCase_char c =
     (let n = (of_char c :: nat)
      in if (65 \<le> n \<and> n \<le> 90) \<or> (192 \<le> n \<and> n \<le> 214) \<or> (216 \<le> n \<and> n \<le> 222)
         then char_of (n + 32) else c)"

definition toLowerCase :: "string \<Rightarrow> string" where
  "toLowerCase s = map toLowerCase_char s"

text \<open>
  \<^verbatim>\<open>s.replace(/X+/g, r)\<close> for a character class \<^verbatim>\<open>X\<close>: every maximal run of
  characters of the class is replaced by \<^verbatim>\<open>r\<close>.
\<close>

function replace_runs :: "(char \<Rightarrow> bool) \<Rightarrow> string \<Rightarrow> string \<Rightarrow> string" where
  "replace_runs X r [] = []"
| "replace_runs X r (c # cs) =
     (if X c then r @ replace_runs X r (dropWhile X cs) else c # replace_runs X r cs)"
  by pat_completeness auto
termination
  by (relation "measure (\<lambda>(X, r, s). length s)")
     (auto simp: le_imp_less_Suc length_dropWhile_le)

text \<open>\<^verbatim>\<open>s.replace(/^-|-$/g, '')\<close>: one hyphen less at the start and at the end.\<close>

definition trim_hyphens :: "string \<Rightarrow> string" where
  "trim_hyphens s =
     (let s1 = (if prefix ''-'' s then drop 1 s else s)
      in if suffix ''-'' s1 then butlast s1 else s1)"

text \<open>
  \<^verbatim>\<open>sanitizeFilename\<close>: the chain of replacements and the lower-casing, and then the
  cut \<^verbatim>\<open>substring(0, 100)\<close>.
\<close>

definition sanitize_chain :: "string \<Rightarrow> string" where
  "sanitize_chain filename =
     toLowerCase
       (trim_hyphens
         (replace_runs (\<lambda>c. c = CHR ''-'') ''-''
           (filter is_word
             (replace_runs is_space ''-'' filename))))"

definition sanitizeFilename :: "string \<Rightarrow> string" where
  "sanitizeFilename filename = take 100 (sanitize_chain filename)"

text \<open>
  The characters of a safe file name: lower-case letters, digits, the hyphen and the
  underscore.
\<close>

definition filename_char :: "char \<Rightarrow> bool" where
  "filename_char c =
     (let n = (of_char c :: nat)
      in (97 \<le> n \<and> n \<le> 122) \<or> (48 \<le> n \<and> n \<le> 57) \<or> c = CHR ''-'' \<or> c = CHR ''_'')"

text \<open>No two hyphens in a row, by recursion over the string.\<close>

fun no_double :: "string \<Rightarrow> bool" where
  "no_double (a # b # cs) = (\<not> (a = CHR ''-'' \<and> b = CHR ''-'') \<and> no_double (b # cs))"
| "no_double _ = True"

definition generateFilename :: "confluence_page \<Rightarrow> string" where
  "generateFilename page =
     (let sanitizedTitle = sanitizeFilename (pg_title page);
          pageId = pg_id page
      in toLowerCase (pg_space_key page) @ ''_'' @ pageId @ ''_'' @ sanitizedTitle)"

definition getPageFilePath :: "config \<Rightarrow> confluence_page \<Rightarrow> string" where
  "getPageFilePath cfg page =
     (let filename = generateFilename page
      in path_join (cfg_contentDir cfg) (filename @ ''.md''))"

text \<open>
  The result objects of \<^verbatim>\<open>savePage\<close> and \<^verbatim>\<open>savePageWithMetadata\<close>; a key that
  an object does not have, or that is \<^verbatim>\<open>null\<close>, is \<open>None\<close>.
\<close>

record save_result =
  r_success :: bool
  r_filePath :: "string option"
  r_pageId :: "string option"
  r_error :: "string option"

definition savePage ::
  "faults \<Rightarrow> config \<Rightarrow> filesystem \<Rightarrow> confluence_page \<Rightarrow> string
     \<Rightarrow> save_result \<times> filesystem" where
  "savePage F cfg fs page markdown =
     (let filePath = getPageFilePath cfg page
      in case writeFileSync F fs filePath markdown of
           Inr fs' \<Rightarrow>
             (\<lparr>r_success = True, r_filePath = Some filePath, r_pageId = None,
               r_error = None\<rparr>, fs')
         | Inl msg \<Rightarrow>
             (\<lparr>r_success = False, r_filePath = None, r_pageId = None,
               r_error = Some msg\<rparr>, fs))"

text \<open>
  \<^verbatim>\<open>savePageWithMetadata\<close>; \<open>now\<close> is the value of
  \<^verbatim>\<open>new Date().toISOString()\<close> at the call.
\<close>

definition savePageWithMetadata ::
  "faults \<Rightarrow> config \<Rightarrow> string \<Rightarrow> world \<Rightarrow> confluence_page \<Rightarrow> string \<Rightarrow> string option
     \<Rightarrow> save_result \<times> world" where
  "savePageWithMetadata F cfg now w page markdown fileSearchStoreName =
     (let (saveResult, fs') = savePage F cfg (w_fs w) page markdown
      in if \<not> r_success saveResult
         then (\<lparr>r_success = False, r_filePath = None, r_pageId = None,
                r_error = r_error saveResult\<rparr>, w\<lparr>w_fs := fs'\<rparr>)
         else
           (case db_upsertPage F (w_db w)
                   \<lparr>u_pageId = pg_id page, u_spaceKey = pg_space_key page,
                    u_title = pg_title page, u_version = pg_version_number page,
                    u_lastSynced = now, u_filePath = r_filePath saveResult,
                    u_fileSearchStoreName = fileSearchStoreName,
                    u_url = (case pg_links_webui page of
                               None \<Rightarrow> None
                             | Some webui \<Rightarrow>
                                 if webui = [] then None
                                 else Some (cfg_baseUrl cfg @ ''/wiki'' @ webui))\<rparr> of
              Inr db' \<Rightarrow>
                (\<lparr>r_success = True, r_filePath = r_filePath saveResult,
                  r_pageId = Some (pg_id page), r_error = None\<rparr>,
                 \<lparr>w_db = db', w_fs = fs'\<rparr>)
            | Inl msg \<Rightarrow>
                (\<lparr>r_success = False, r_filePath = r_filePath saveResult, r_pageId = None,
                  r_error = Some (''File saved but database update failed: '' @ msg)\<rparr>,
                 w\<lparr>w_fs := fs'\<rparr>)))"

section \<open>Confluence client\<close>

text \<open>
  \<^verbatim>\<open>getAllPages\<close> of the client (the store has a method of the same name). The
  remote side is a parameter: the answer to \<^verbatim>\<open>GET /content\<close> for a space key, a
  limit and a start offset is an error message or the list of results. The loop runs
  until the remote side returns a short batch or enough pages are collected; a run that
  never ends has no value.
\<close>

partial_function (option) getAllPages_loop ::
  "(string \<Rightarrow> nat \<Rightarrow> nat \<Rightarrow> string + confluence_page list) \<Rightarrow> config \<Rightarrow> string \<Rightarrow> nat
     \<Rightarrow> confluence_page list \<Rightarrow> nat \<Rightarrow> bool \<Rightarrow> (string + confluence_page list) option" where
  "getAllPages_loop get cfg spaceKey limit pages start hasMore =
     (if hasMore \<and> int (length pages) < cfg_maxPagesPerSync cfg
      then (case get spaceKey limit start of
              Inl msg \<Rightarrow>
                Some (Inl (''Failed to fetch pages from space '' @ spaceKey @ '': '' @ msg))
            | Inr results \<Rightarrow>
                getAllPages_loop get cfg spaceKey limit (pages @ results) (start + limit)
                  (length results = limit))
      else Some (Inr pages))"

definition getAllPages_client ::
  "(string \<Rightarrow> nat \<Rightarrow> nat \<Rightarrow> string + confluence_page list) \<Rightarrow> config \<Rightarrow> string \<Rightarrow> nat
     \<Rightarrow> (string + confluence_page list) option" where
  "getAllPages_client get cfg spaceKey limit = getAllPages_loop get cfg spaceKey limit [] 0 True"

section \<open>Concrete pages and rows\<close>

text \<open>Shorthands for the pages and rows of the worked examples.\<close>

definition remote_page :: "string \<Rightarrow> string \<Rightarrow> int \<Rightarrow> string \<Rightarrow> confluence_page" where
  "remote_page i t v k =
     \<lparr>pg_id = i, pg_title = t, pg_version_number = v, pg_space_key = k,
      pg_links_webui = None\<rparr>"

definition stored_row :: "string \<Rightarrow> string \<Rightarrow> int \<Rightarrow> string \<Rightarrow> string option \<Rightarrow> synced_page" where
  "stored_row i t v k fp =
     \<lparr>page_id = i, space_key = k, title = t, version = v,
      last_synced = ''2024-01-01T00:00:00.000Z'', file_path = fp,
      file_search_store_name = None, url = None\<rparr>"

text \<open>
  The mixed list of the detector's tests (a new page, a page with a newer version, an
  unchanged page), with a page renamed at the same version added.
\<close>

definition mixed_store :: store where
  "mixed_store =
     [stored_row ''2'' ''Updated'' 3 ''DEV'' None,
      stored_row ''3'' ''Unchanged'' 2 ''DEV'' None,
      stored_row ''4'' ''Old Title'' 3 ''DEV'' None]"

definition mixed_pages :: "confluence_page list" where
  "mixed_pages =
     [remote_page ''1'' ''New'' 1 ''DEV'',
      remote_page ''2'' ''Updated'' 5 ''DEV'',
      remote_page ''3'' ''Unchanged'' 2 ''DEV'',
      remote_page ''4'' ''New Title'' 3 ''DEV'']"

text \<open>
  The scenario of the specification: the space DEV has the pages 1 (version 1, "A") and
  2 (version 2, "B"); the store has the records 1 (version 1, "A") and 3 (version 1,
  "C"), both of DEV. After a run the store has the records 1 and 2.
\<close>

definition dev_pages :: "confluence_page list" where
  "dev_pages = [remote_page ''1'' ''A'' 1 ''DEV'', remote_page ''2'' ''B'' 2 ''DEV'']"

definition dev_store :: store where
  "dev_store = [stored_row ''1'' ''A'' 1 ''DEV'' None, stored_row ''3'' ''C'' 1 ''DEV'' None]"

definition dev_store_synced :: store where
  "dev_store_synced =
     [stored_row ''1'' ''A'' 1 ''DEV'' None, stored_row ''2'' ''B'' 2 ''DEV'' None]"

text \<open>
  Records of two spaces, and a remote list that has pages of the first space only.
\<close>

definition ab_store :: store where
  "ab_store =
     [stored_row ''a1'' ''Kept'' 1 ''A'' None,
      stored_row ''a2'' ''Stale'' 1 ''A'' None,
      stored_row ''b1'' ''Elsewhere'' 1 ''B'' None]"

definition a_pages :: "confluence_page list" where
  "a_pages = [remote_page ''a1'' ''Kept'' 1 ''A'']"

text \<open>
  The store and the disk of the detector's test for missing files: two records, of
  which the first has its file; no operation raises.
\<close>

definition no_faults :: faults where
  "no_faults =
     \<lparr>db_delete_fault = (\<lambda>_. None), db_upsert_fault = (\<lambda>_. None),
      unlink_fault = (\<lambda>_. None), write_fault = (\<lambda>_. None)\<rparr>"

definition drift_world :: world where
  "drift_world =
     \<lparr>w_db = [stored_row ''1'' ''One'' 1 ''DEV'' (Some ''/exists.md''),
              stored_row ''2'' ''Two'' 1 ''DEV'' (Some ''/missing.md'')],
      w_fs = \<lparr>fs_files = [(''/exists.md'', ''# One'')], fs_dirs = [[]]\<rparr>\<rparr>"

text \<open>
  Three records with their files in the content directory. Deleting the first record
  raises (the error of the detector's test), and so does unlinking the file of the
  third.
\<close>

definition cleanup_faults :: faults where
  "cleanup_faults =
     \<lparr>db_delete_fault = (\<lambda>i. if i = ''1'' then Some ''Database error'' else None),
      db_upsert_fault = (\<lambda>_. None),
      unlink_fault = (\<lambda>p. if p = ''/content/locked.md''
                           then Some ''EACCES: permission denied'' else None),
      write_fault = (\<lambda>_. None)\<rparr>"

definition cleanup_rows :: "synced_page list" where
  "cleanup_rows =
     [stored_row ''1'' ''One'' 1 ''DEV'' (Some ''/content/one.md''),
      stored_row ''2'' ''Two'' 1 ''DEV'' (Some ''/content/two.md''),
      stored_row ''3'' ''Locked'' 1 ''DEV'' (Some ''/content/locked.md'')]"

definition cleanup_world :: world where
  "cleanup_world =
     \<lparr>w_db = cleanup_rows,
      w_fs = \<lparr>fs_files = [(''/content/one.md'', ''# One''), (''/content/two.md'', ''# Two''),
                          (''/content/locked.md'', ''# Locked'')],
             fs_dirs = [[], ''/content'']\<rparr>\<rparr>"

text \<open>
  The configuration and the page of the storage tests; the page whose space key makes
  the file path point into a directory that does not exist; a store whose upsert
  raises.
\<close>

definition test_config :: config where
  "test_config =
     \<lparr>cfg_contentDir = ''/content'', cfg_baseUrl = ''https://test.atlassian.net'',
      cfg_maxPagesPerSync = 500\<rparr>"

definition test_page :: confluence_page where
  "test_page =
     \<lparr>pg_id = ''test-123'', pg_title = ''Test Page'', pg_version_number = 1,
      pg_space_key = ''DOCS'', pg_links_webui = Some ''/spaces/DOCS/pages/123''\<rparr>"

definition invalid_page :: confluence_page where
  "invalid_page = test_page\<lparr>pg_space_key := ''/invalid/path/''\<rparr>"

definition empty_world :: world where
  "empty_world = \<lparr>w_db = [], w_fs = \<lparr>fs_files = [], fs_dirs = [[], ''/content'']\<rparr>\<rparr>"

definition locked_store :: faults where
  "locked_store = no_faults\<lparr>db_upsert_fault := (\<lambda>_. Some ''database is locked'')\<rparr>"

text \<open>
  A space of four pages, served in batches of at most the limit asked for, and a
  configuration that allows three pages in a sync.
\<close>

definition four_pages :: "confluence_page list" where
  "four_pages =
     [remote_page ''1'' ''One'' 1 ''DEV'', remote_page ''2'' ''Two'' 1 ''DEV'',
      remote_page ''3'' ''Three'' 1 ''DEV'', remote_page ''4'' ''Four'' 1 ''DEV'']"

definition four_page_space :: "string \<Rightarrow> nat \<Rightarrow> nat \<Rightarrow> string + confluence_page list" where
  "four_page_space spaceKey limit start = Inr (take limit (drop start four_pages))"

definition three_page_config :: config where
  "three_page_config = test_config\<lparr>cfg_maxPagesPerSync := 3\<rparr>"

section \<open>Properties of the classification\<close>

lemma step_store: "dstore (detectChanges_step page s) = dstore s"
  by (simp add: detectChanges_step_def split: option.split)

lemma fold_step_store: "dstore (fold detectChanges_step ps s) = dstore s"
  by (induction ps arbitrary: s) (simp_all add: step_store)

lemma step_changed:
  "changedPages (detectChanges_step page s) =
     changedPages s @ (if classify (dstore s) page = UNCHANGED then [] else [page])"
  by (simp add: detectChanges_step_def classify_def split: option.split)

lemma fold_step_changed:
  "changedPages (fold detectChanges_step ps s) =
     changedPages s @ filter (\<lambda>p. classify (dstore s) p \<noteq> UNCHANGED) ps"
  by (induction ps arbitrary: s) (simp_all add: step_changed step_store)

lemma detectChanges_filter:
  "detectChanges db ps = filter (\<lambda>p. classify db p \<noteq> UNCHANGED) ps"
  by (simp add: detectChanges_def detectChanges_run_def fold_step_changed)

lemma step_stats:
  "dstats (detectChanges_step page s) =
     (case classify (dstore s) page of
        NEW \<Rightarrow> (dstats s)\<lparr>st_new := st_new (dstats s) + 1\<rparr>
      | UPDATED \<Rightarrow> (dstats s)\<lparr>st_updated := st_updated (dstats s) + 1\<rparr>
      | UNCHANGED \<Rightarrow> (dstats s)\<lparr>st_unchanged := st_unchanged (dstats s) + 1\<rparr>)"
  by (simp add: detectChanges_step_def classify_def split: option.split)

lemma fold_step_stats:
  "dstats (fold detectChanges_step ps s) =
     (dstats s)\<lparr>st_new := st_new (dstats s) + length (filter (\<lambda>p. classify (dstore s) p = NEW) ps),
       st_updated := st_updated (dstats s)
         + length (filter (\<lambda>p. classify (dstore s) p = UPDATED) ps),
       st_unchanged := st_unchanged (dstats s)
         + length (filter (\<lambda>p. classify (dstore s) p = UNCHANGED) ps)\<rparr>"
proof (induction ps arbitrary: s)
  case Nil
  show ?case by simp
next
  case (Cons p ps)
  show ?case
    by (cases "classify (dstore s) p") (simp_all add: Cons.IH step_stats step_store)
qed

lemma detectChanges_stats:
  "dstats (detectChanges_run db ps) =
     \<lparr>st_total = length ps,
      st_new = length (filter (\<lambda>p. classify db p = NEW) ps),
      st_updated = length (filter (\<lambda>p. classify db p = UPDATED) ps),
      st_unchanged = length (filter (\<lambda>p. classify db p = UNCHANGED) ps)\<rparr>"
  by (simp add: detectChanges_run_def fold_step_stats)

text \<open>
  C2 (classification correctness). For every page of the remote list: with no record
  under its id it is classified NEW and is in the changed list; with a record of a
  strictly smaller version it is classified UPDATED and is in the changed list; with a
  record of the same version and another title it is classified UPDATED and is in the
  changed list; with a record of the same version and the same title it is classified
  UNCHANGED and is not in the changed list.
\<close>

theorem classification_correct:
  assumes "p \<in> set ps"
  shows "(getPage db (pg_id p) = None \<longrightarrow>
            classify db p = NEW \<and> p \<in> set (detectChanges db ps))
       \<and> (\<forall>r. getPage db (pg_id p) = Some r \<and> version r < pg_version_number p \<longrightarrow>
            classify db p = UPDATED \<and> p \<in> set (detectChanges db ps))
       \<and> (\<forall>r. getPage db (pg_id p) = Some r \<and> version r = pg_version_number p
              \<and> pg_title p \<noteq> title r \<longrightarrow>
            classify db p = UPDATED \<and> p \<in> set (detectChanges db ps))
       \<and> (\<forall>r. getPage db (pg_id p) = Some r \<and> version r = pg_version_number p
              \<and> pg_title p = title r \<longrightarrow>
            classify db p = UNCHANGED \<and> p \<notin> set (detectChanges db ps))"
  using assms by (auto simp: detectChanges_filter classify_def hasPageChanged_def)


theorem classification_correct_witness:
  "classify mixed_store (remote_page ''1'' ''New'' 1 ''DEV'') = NEW
   \<and> remote_page ''1'' ''New'' 1 ''DEV'' \<in> set (detectChanges mixed_store mixed_pages)
   \<and> classify mixed_store (remote_page ''2'' ''Updated'' 5 ''DEV'') = UPDATED
   \<and> remote_page ''2'' ''Updated'' 5 ''DEV'' \<in> set (detectChanges mixed_store mixed_pages)
   \<and> classify mixed_store (remote_page ''4'' ''New Title'' 3 ''DEV'') = UPDATED
   \<and> remote_page ''4'' ''New Title'' 3 ''DEV'' \<in> set (detectChanges mixed_store mixed_pages)
   \<and> classify mixed_store (remote_page ''3'' ''Unchanged'' 2 ''DEV'') = UNCHANGED
   \<and> remote_page ''3'' ''Unchanged'' 2 ''DEV'' \<notin> set (detectChanges mixed_store mixed_pages)"
proof -
  have m1: "remote_page ''1'' ''New'' 1 ''DEV'' \<in> set mixed_pages"
    and m2: "remote_page ''2'' ''Updated'' 5 ''DEV'' \<in> set mixed_pages"
    and m3: "remote_page ''3'' ''Unchanged'' 2 ''DEV'' \<in> set mixed_pages"
    and m4: "remote_page ''4'' ''New Title'' 3 ''DEV'' \<in> set mixed_pages"
    by (simp_all add: mixed_pages_def)
  have g1: "getPage mixed_store (pg_id (remote_page ''1'' ''New'' 1 ''DEV'')) = None"
    and g2: "getPage mixed_store (pg_id (remote_page ''2'' ''Updated'' 5 ''DEV''))
               = Some (stored_row ''2'' ''Updated'' 3 ''DEV'' None)"
    and g3: "getPage mixed_store (pg_id (remote_page ''3'' ''Unchanged'' 2 ''DEV''))
               = Some (stored_row ''3'' ''Unchanged'' 2 ''DEV'' None)"
    and g4: "getPage mixed_store (pg_id (remote_page ''4'' ''New Title'' 3 ''DEV''))
               = Some (stored_row ''4'' ''Old Title'' 3 ''DEV'' None)"
    by (simp_all add: getPage_def mixed_store_def remote_page_def stored_row_def)
  show ?thesis
    using classification_correct [OF m1, of mixed_store]
      classification_correct [OF m2, of mixed_store]
      classification_correct [OF m3, of mixed_store]
      classification_correct [OF m4, of mixed_store]
      g1 g2 g3 g4
    by (simp add: remote_page_def stored_row_def)
qed

text \<open>
  C4 (version decrease), as stated: a page whose version is below the stored one would
  be UNCHANGED whatever the titles. The page of id 123 with version 2 and the title
  "New Title" against the record of version 3 and the title "Old Title" is classified
  UPDATED and is emitted.
\<close>

theorem version_decrease_counterexample:
  "getPage [stored_row ''123'' ''Old Title'' 3 ''DEV'' None] ''123''
     = Some (stored_row ''123'' ''Old Title'' 3 ''DEV'' None)
   \<and> pg_version_number (remote_page ''123'' ''New Title'' 2 ''DEV'')
       < version (stored_row ''123'' ''Old Title'' 3 ''DEV'' None)
   \<and> classify [stored_row ''123'' ''Old Title'' 3 ''DEV'' None]
        (remote_page ''123'' ''New Title'' 2 ''DEV'') = UPDATED
   \<and> detectChanges [stored_row ''123'' ''Old Title'' 3 ''DEV'' None]
        [remote_page ''123'' ''New Title'' 2 ''DEV'']
       = [remote_page ''123'' ''New Title'' 2 ''DEV'']"
  by (simp add: detectChanges_filter classify_def hasPageChanged_def getPage_def
      remote_page_def stored_row_def)

text \<open>
  C4, amended. For a page with a record whose stored version is strictly greater than
  the remote one, the title alone decides: the page is UNCHANGED and not emitted when
  the titles are equal, UPDATED and emitted when they differ.
\<close>

theorem version_decrease_title_decides:
  assumes "getPage db (pg_id p) = Some r" and "pg_version_number p < version r"
  shows "(classify db p = UNCHANGED \<longleftrightarrow> pg_title p = title r)
       \<and> (classify db p = UPDATED \<longleftrightarrow> pg_title p \<noteq> title r)
       \<and> (p \<in> set (detectChanges db ps) \<longleftrightarrow> p \<in> set ps \<and> pg_title p \<noteq> title r)"
  using assms by (auto simp: detectChanges_filter classify_def hasPageChanged_def)

theorem version_decrease_title_decides_witness:
  "classify [stored_row ''123'' ''Test Page'' 3 ''DEV'' None]
     (remote_page ''123'' ''Test Page'' 2 ''DEV'') = UNCHANGED
   \<and> remote_page ''123'' ''Test Page'' 2 ''DEV''
       \<notin> set (detectChanges [stored_row ''123'' ''Test Page'' 3 ''DEV'' None]
                [remote_page ''123'' ''Test Page'' 2 ''DEV''])"
proof -
  have g: "getPage [stored_row ''123'' ''Test Page'' 3 ''DEV'' None]
             (pg_id (remote_page ''123'' ''Test Page'' 2 ''DEV''))
           = Some (stored_row ''123'' ''Test Page'' 3 ''DEV'' None)"
    by (simp add: getPage_def remote_page_def stored_row_def)
  have v: "pg_version_number (remote_page ''123'' ''Test Page'' 2 ''DEV'')
           < version (stored_row ''123'' ''Test Page'' 3 ''DEV'' None)"
    by (simp add: remote_page_def stored_row_def)
  show ?thesis
    using version_decrease_title_decides [OF g v,
        of "[remote_page ''123'' ''Test Page'' 2 ''DEV'']"]
    by (simp add: remote_page_def stored_row_def)
qed

text \<open>
  C6 (order preservation). The changed list is the input list filtered by the
  classification: exactly the pages classified NEW or UPDATED, in the order of the
  input, each as often as the input has it; it is a subsequence of the input; and the
  store the loop ends with is the store it started with.
\<close>

theorem detectChanges_preserves_order:
  "detectChanges db ps = filter (\<lambda>p. classify db p = NEW \<or> classify db p = UPDATED) ps
   \<and> subseq (detectChanges db ps) ps
   \<and> count_list (detectChanges db ps) p
       = (if classify db p = UNCHANGED then 0 else count_list ps p)
   \<and> dstore (detectChanges_run db ps) = db"
proof -
  have same: "(\<lambda>p. classify db p \<noteq> UNCHANGED)
                = (\<lambda>p. classify db p = NEW \<or> classify db p = UPDATED)"
  proof (rule ext)
    fix q
    show "(classify db q \<noteq> UNCHANGED) = (classify db q = NEW \<or> classify db q = UPDATED)"
      by (cases "classify db q") auto
  qed
  have cnt: "count_list (filter P xs) x = (if P x then count_list xs x else 0)"
    for P :: "confluence_page \<Rightarrow> bool" and xs x
    by (induction xs) auto
  have f: "detectChanges db ps
             = filter (\<lambda>p. classify db p = NEW \<or> classify db p = UPDATED) ps"
    by (simp add: detectChanges_filter same)
  have s: "subseq (detectChanges db ps) ps"
    by (simp add: detectChanges_filter)
  have c: "count_list (detectChanges db ps) p
             = (if classify db p = UNCHANGED then 0 else count_list ps p)"
    by (simp add: detectChanges_filter cnt)
  have w: "dstore (detectChanges_run db ps) = db"
    by (simp add: detectChanges_run_def fold_step_store)
  from f s c w show ?thesis by blast
qed


section \<open>Properties of the deletion detection\<close>

lemma set_unique: "set (unique xs) = set xs"
  by (simp add: unique_def)

lemma distinct_unique: "distinct (unique xs)"
  by (simp add: unique_def)

lemma set_getPagesBySpace: "set (getPagesBySpace db k) = {r \<in> set db. space_key r = k}"
  by (auto simp: getPagesBySpace_def)

lemma set_detectDeletedPages:
  "set (detectDeletedPages db ps)
     = {r \<in> set db. space_key r \<in> set (map pg_space_key ps) \<and> page_id r \<notin> set (map pg_id ps)}"
  by (auto simp: detectDeletedPages_def Let_def set_unique set_getPagesBySpace)

lemma set_detectDeletedPagesInSpace:
  "set (detectDeletedPagesInSpace db k ps)
     = {r \<in> set db. space_key r = k \<and> page_id r \<notin> set (map pg_id ps)}"
  by (auto simp: detectDeletedPagesInSpace_def Let_def set_getPagesBySpace)

text \<open>
  C3 (scoped deletion). A record is reported by \<^verbatim>\<open>detectDeletedPages\<close> exactly when it
  is stored, its space key is the space key of some page of the remote list and its id
  is the id of no page of the remote list; a record of a space that the remote list
  does not represent is not reported. The variant for one space reports exactly the
  stored records of that space whose id is the id of no page of the list.
\<close>

theorem scoped_deletion:
  "(r \<in> set (detectDeletedPages db ps) \<longleftrightarrow>
      r \<in> set db \<and> space_key r \<in> set (map pg_space_key ps)
      \<and> page_id r \<notin> set (map pg_id ps))
   \<and> (space_key r \<notin> set (map pg_space_key ps) \<longrightarrow> r \<notin> set (detectDeletedPages db ps))
   \<and> (r \<in> set (detectDeletedPagesInSpace db k ps) \<longleftrightarrow>
      r \<in> set db \<and> space_key r = k \<and> page_id r \<notin> set (map pg_id ps))"
  by (simp add: set_detectDeletedPages set_detectDeletedPagesInSpace)

theorem scoped_deletion_witness:
  "stored_row ''b1'' ''Elsewhere'' 1 ''B'' None \<notin> set (detectDeletedPages ab_store a_pages)
   \<and> stored_row ''a2'' ''Stale'' 1 ''A'' None \<in> set (detectDeletedPages ab_store a_pages)
   \<and> stored_row ''a1'' ''Kept'' 1 ''A'' None \<notin> set (detectDeletedPages ab_store a_pages)"
  using scoped_deletion [of "stored_row ''b1'' ''Elsewhere'' 1 ''B'' None" ab_store a_pages]
    scoped_deletion [of "stored_row ''a2'' ''Stale'' 1 ''A'' None" ab_store a_pages]
    scoped_deletion [of "stored_row ''a1'' ''Kept'' 1 ''A'' None" ab_store a_pages]
  by (simp add: ab_store_def a_pages_def remote_page_def stored_row_def)

section \<open>A second pass over a synced snapshot\<close>

text \<open>
  C1 (idempotence), as stated: whenever the store holds, for each page of the snapshot,
  a record of the same id, version and title, the deletion detection over the snapshot
  would return nothing. The store may hold more than that: with the records 1 and 3 of
  DEV and the snapshot of page 1 alone, page 1 is synced and record 3 is reported as
  deleted.
\<close>

theorem second_pass_counterexample:
  "getPage dev_store (pg_id (remote_page ''1'' ''A'' 1 ''DEV''))
     = Some (stored_row ''1'' ''A'' 1 ''DEV'' None)
   \<and> version (stored_row ''1'' ''A'' 1 ''DEV'' None)
       = pg_version_number (remote_page ''1'' ''A'' 1 ''DEV'')
   \<and> title (stored_row ''1'' ''A'' 1 ''DEV'' None) = pg_title (remote_page ''1'' ''A'' 1 ''DEV'')
   \<and> detectDeletedPages dev_store [remote_page ''1'' ''A'' 1 ''DEV'']
       = [stored_row ''3'' ''C'' 1 ''DEV'' None]"
  by (simp add: detectDeletedPages_def getPagesBySpace_def getPage_def unique_def dev_store_def
      remote_page_def stored_row_def)

lemma synced_unchanged:
  assumes "getPage db (pg_id p) = Some r"
    and "version r = pg_version_number p" and "title r = pg_title p"
  shows "classify db p = UNCHANGED"
  using assms by (simp add: classify_def hasPageChanged_def)

text \<open>
  C1, amended. If the store holds, for each page of the snapshot, a record of the same
  id, version and title, and holds no record of a space of the snapshot whose id is not
  in the snapshot (the deletions of the first run were applied), then a second pass
  emits nothing, counts every page as unchanged, and the deletion detection over the
  snapshot returns nothing.
\<close>

theorem second_pass_idempotent:
  assumes synced: "\<forall>p \<in> set ps. \<exists>r. getPage db (pg_id p) = Some r
              \<and> version r = pg_version_number p \<and> title r = pg_title p"
    and clean: "\<forall>r \<in> set db. space_key r \<in> set (map pg_space_key ps)
              \<longrightarrow> page_id r \<in> set (map pg_id ps)"
  shows "detectChanges db ps = []
       \<and> dstats (detectChanges_run db ps)
           = \<lparr>st_total = length ps, st_new = 0, st_updated = 0, st_unchanged = length ps\<rparr>
       \<and> detectDeletedPages db ps = []"
proof -
  have u: "classify db p = UNCHANGED" if "p \<in> set ps" for p
    using synced that synced_unchanged by blast
  have c: "detectChanges db ps = []"
    by (simp add: detectChanges_filter u)
  have n: "filter (\<lambda>p. classify db p = NEW) ps = []"
    and d: "filter (\<lambda>p. classify db p = UPDATED) ps = []"
    and k: "filter (\<lambda>p. classify db p = UNCHANGED) ps = ps"
    by (simp_all add: u)
  have s: "dstats (detectChanges_run db ps)
             = \<lparr>st_total = length ps, st_new = 0, st_updated = 0, st_unchanged = length ps\<rparr>"
    by (simp add: detectChanges_stats n d k)
  have "set (detectDeletedPages db ps) = {}"
    using clean by (auto simp: set_detectDeletedPages)
  then have e: "detectDeletedPages db ps = []"
    by simp
  from c s e show ?thesis by blast
qed

theorem second_pass_idempotent_witness:
  "detectChanges dev_store_synced dev_pages = []
   \<and> dstats (detectChanges_run dev_store_synced dev_pages)
       = \<lparr>st_total = 2, st_new = 0, st_updated = 0, st_unchanged = 2\<rparr>
   \<and> detectDeletedPages dev_store_synced dev_pages = []"
proof -
  have synced: "\<forall>p \<in> set dev_pages. \<exists>r. getPage dev_store_synced (pg_id p) = Some r
              \<and> version r = pg_version_number p \<and> title r = pg_title p"
    by (simp add: dev_pages_def dev_store_synced_def getPage_def remote_page_def stored_row_def)
  have clean: "\<forall>r \<in> set dev_store_synced. space_key r \<in> set (map pg_space_key dev_pages)
              \<longrightarrow> page_id r \<in> set (map pg_id dev_pages)"
    by (simp add: dev_pages_def dev_store_synced_def remote_page_def stored_row_def)
  have len: "length dev_pages = 2"
    by (simp add: dev_pages_def)
  show ?thesis
    using second_pass_idempotent [OF synced clean] len by simp
qed

text \<open>
  The two hypotheses are what a run leaves behind: deleting the records that the
  deletion detection reports leaves no stale record of a space of the snapshot, and
  does not touch the record of a page of the snapshot.
\<close>

lemma set_apply_deletions:
  "set (apply_deletions db deleted) = {r \<in> set db. page_id r \<notin> page_id ` set deleted}"
  unfolding apply_deletions_def
  by (induction deleted arbitrary: db) (auto simp: deletePage_def)

lemma getPage_apply_deletions:
  "pid \<notin> page_id ` set deleted \<Longrightarrow> getPage (apply_deletions db deleted) pid = getPage db pid"
  unfolding apply_deletions_def
proof (induction deleted arbitrary: db)
  case Nil
  show ?case by simp
next
  case (Cons a deleted)
  have "getPage (deletePage db (page_id a)) pid = getPage db pid"
    using Cons.prems by (induction db) (auto simp: getPage_def deletePage_def)
  with Cons show ?case by simp
qed

lemma deletions_leave_clean:
  "\<forall>r \<in> set (apply_deletions db (detectDeletedPages db ps)).
     space_key r \<in> set (map pg_space_key ps) \<longrightarrow> page_id r \<in> set (map pg_id ps)"
  by (auto simp: set_apply_deletions set_detectDeletedPages)

lemma deletions_keep_synced:
  assumes "p \<in> set ps"
  shows "getPage (apply_deletions db (detectDeletedPages db ps)) (pg_id p) = getPage db (pg_id p)"
proof -
  have "pg_id p \<in> set (map pg_id ps)"
    using assms by simp
  then have "pg_id p \<notin> page_id ` set (detectDeletedPages db ps)"
    by (auto simp: set_detectDeletedPages)
  then show ?thesis by (rule getPage_apply_deletions)
qed

section \<open>Drift between the store and the disk\<close>

lemma set_getAllPages: "set (getAllPages db) = set db"
  by (simp add: getAllPages_def)

lemma fileExists_iff:
  "fileExists fs r \<longleftrightarrow> (\<exists>p. file_path r = Some p \<and> existsSync fs p)"
  by (auto simp: fileExists_def existsSync_def split: option.split)

lemma unlinkSync_removes:
  assumes "unlinkSync F fs p = Inr fs'"
  shows "\<not> existsSync fs' p"
  using assms
  by (auto simp: unlinkSync_def existsSync_def split: option.splits if_splits)

text \<open>
  C7 (missing artifacts). A record is listed by \<^verbatim>\<open>findMissingFiles\<close> exactly when it
  is stored and its file path is absent or names nothing that exists on the disk, as
  \<^verbatim>\<open>fs.existsSync\<close> tells it; and once the file of a stored record has been
  unlinked, the record is listed.
\<close>

theorem missing_files_drift:
  "(r \<in> set (findMissingFiles w) \<longleftrightarrow>
      r \<in> set (w_db w) \<and> (\<forall>p. file_path r = Some p \<longrightarrow> \<not> existsSync (w_fs w) p))
   \<and> (r \<in> set (w_db w) \<and> file_path r = Some p \<and> unlinkSync F (w_fs w) p = Inr fs'
        \<longrightarrow> r \<in> set (findMissingFiles (w\<lparr>w_fs := fs'\<rparr>)))"
proof -
  have a: "r \<in> set (findMissingFiles w) \<longleftrightarrow>
      r \<in> set (w_db w) \<and> (\<forall>p. file_path r = Some p \<longrightarrow> \<not> existsSync (w_fs w) p)" for w
    by (auto simp: findMissingFiles_def set_getAllPages fileExists_iff)
  have b: "r \<in> set (findMissingFiles (w\<lparr>w_fs := fs'\<rparr>))"
    if "r \<in> set (w_db w)" and "file_path r = Some p" and "unlinkSync F (w_fs w) p = Inr fs'"
    using that unlinkSync_removes [of F "w_fs w" p fs'] by (simp add: a)
  from a b show ?thesis by blast
qed

theorem missing_files_drift_witness:
  "stored_row ''2'' ''Two'' 1 ''DEV'' (Some ''/missing.md'') \<in> set (findMissingFiles drift_world)
   \<and> stored_row ''1'' ''One'' 1 ''DEV'' (Some ''/exists.md'') \<notin> set (findMissingFiles drift_world)
   \<and> unlinkSync no_faults (w_fs drift_world) ''/exists.md''
       = Inr \<lparr>fs_files = [], fs_dirs = [[]]\<rparr>
   \<and> stored_row ''1'' ''One'' 1 ''DEV'' (Some ''/exists.md'')
       \<in> set (findMissingFiles (drift_world\<lparr>w_fs := \<lparr>fs_files = [], fs_dirs = [[]]\<rparr>\<rparr>))"
proof -
  have u: "unlinkSync no_faults (w_fs drift_world) ''/exists.md''
             = Inr \<lparr>fs_files = [], fs_dirs = [[]]\<rparr>"
    by (simp add: unlinkSync_def no_faults_def drift_world_def)
  have m: "stored_row ''1'' ''One'' 1 ''DEV'' (Some ''/exists.md'') \<in> set (w_db drift_world)"
    by (simp add: drift_world_def)
  have f: "file_path (stored_row ''1'' ''One'' 1 ''DEV'' (Some ''/exists.md''))
             = Some ''/exists.md''"
    by (simp add: stored_row_def)
  show ?thesis
    using missing_files_drift [of "stored_row ''2'' ''Two'' 1 ''DEV'' (Some ''/missing.md'')"
        drift_world]
      missing_files_drift [of "stored_row ''1'' ''One'' 1 ''DEV'' (Some ''/exists.md'')"
        drift_world "''/exists.md''" no_faults "\<lparr>fs_files = [], fs_dirs = [[]]\<rparr>"]
      u m f
    by (simp add: drift_world_def stored_row_def existsSync_def)
qed

section \<open>Cleanup\<close>

lemma cleanup_pages_append:
  "cleanup_pages F (xs @ ys) s = cleanup_pages F ys (cleanup_pages F xs s)"
  by (simp add: cleanup_pages_def)

lemma cleanup_pages_Cons:
  "cleanup_pages F (x # xs) s = cleanup_pages F xs (cleanup_page F x s)"
  by (simp add: cleanup_pages_def)

lemma cleanup_try_errors:
  "errors (snd (snd (cleanup_try F page s))) = errors (snd s)"
  by (simp add: cleanup_try_def Let_def db_deletePage_def split: option.split sum.split)

lemma cleanup_try_deletedPages:
  "deletedPages (snd (snd (cleanup_try F page s)))
     = deletedPages (snd s) + (if db_delete_fault F (page_id page) = None then 1 else 0)"
  by (simp add: cleanup_try_def Let_def db_deletePage_def split: option.split sum.split)

lemma cleanup_try_deletedFiles:
  "deletedFiles (snd (snd (cleanup_try F page s)))
     = deletedFiles (snd s) + (if fst (cleanup_try F page s) = None \<and> db_delete_fault F (page_id page) = None
        \<and> fileExists (w_fs (fst s)) page then 1 else 0)"
  by (auto simp add: cleanup_try_def Let_def db_deletePage_def fileExists_def split: option.split sum.split)

lemma cleanup_try_db:
  "w_db (fst (snd (cleanup_try F page s)))
     = (if db_delete_fault F (page_id page) = None
        then deletePage (w_db (fst s)) (page_id page) else w_db (fst s))"
  by (simp add: cleanup_try_def Let_def db_deletePage_def split: option.split sum.split)

lemma cleanup_page_db:
  "w_db (fst (cleanup_page F page s))
     = (if db_delete_fault F (page_id page) = None
        then deletePage (w_db (fst s)) (page_id page) else w_db (fst s))"
  using cleanup_try_db [of F page s]
  by (cases "cleanup_try F page s") (auto simp: cleanup_page_def split: option.split)

lemma cleanup_page_deletedPages:
  "deletedPages (snd (cleanup_page F page s))
     = deletedPages (snd s) + (if db_delete_fault F (page_id page) = None then 1 else 0)"
  using cleanup_try_deletedPages [of F page s]
  by (cases "cleanup_try F page s") (auto simp: cleanup_page_def split: option.split)

lemma cleanup_pages_deletedPages:
  "deletedPages (snd (cleanup_pages F ps s))
     = deletedPages (snd s) + length (filter (\<lambda>q. db_delete_fault F (page_id q) = None) ps)"
  by (induction ps arbitrary: s) (simp_all add: cleanup_pages_def cleanup_page_deletedPages)

lemma cleanup_pages_db:
  "w_db (fst (cleanup_pages F ps s))
     = filter (\<lambda>r. \<not> (page_id r \<in> page_id ` set ps \<and> db_delete_fault F (page_id r) = None))
         (w_db (fst s))"
proof (induction ps arbitrary: s)
  case Nil
  show ?case by (simp add: cleanup_pages_def)
next
  case (Cons a ps)
  show ?case
    unfolding cleanup_pages_Cons Cons.IH cleanup_page_db
    by (auto simp: deletePage_def intro!: filter_cong)
qed

lemma getPage_None_iff: "getPage db pid = None \<longleftrightarrow> pid \<notin> page_id ` set db"
  by (auto simp: getPage_def find_None_iff)


lemma cleanup_page_errors:
  "errors (snd (cleanup_page F page s))
     = errors (snd s) @ (case fst (cleanup_try F page s) of
                           None \<Rightarrow> [] | Some msg \<Rightarrow> [PageError (page_id page) msg])"
  using cleanup_try_errors [of F page s]
  by (cases "cleanup_try F page s") (auto simp: cleanup_page_def split: option.split)

lemma cleanup_pages_errors:
  "\<exists>es. errors (snd (cleanup_pages F ps s)) = errors (snd s) @ es
        \<and> length es \<le> length ps
        \<and> (\<forall>e \<in> set es. \<exists>q \<in> set ps. \<exists>m. e = PageError (page_id q) m)"
proof (induction ps arbitrary: s)
  case Nil
  show ?case by (simp add: cleanup_pages_def)
next
  case (Cons a ps)
  obtain es where es: "errors (snd (cleanup_pages F ps (cleanup_page F a s)))
        = errors (snd (cleanup_page F a s)) @ es"
      "length es \<le> length ps"
      "\<forall>e \<in> set es. \<exists>q \<in> set ps. \<exists>m. e = PageError (page_id q) m"
    using Cons.IH by blast
  show ?case
  proof (cases "fst (cleanup_try F a s)")
    case None
    with es show ?thesis
      by (intro exI [of _ es]) (auto simp: cleanup_pages_Cons cleanup_page_errors)
  next
    case (Some msg)
    with es show ?thesis
      by (intro exI [of _ "PageError (page_id a) msg # es"])
         (auto simp: cleanup_pages_Cons cleanup_page_errors)
  qed
qed

lemma cleanup_orphan_keeps:
  "w_db (fst (cleanup_orphan F f s)) = w_db (fst s)
   \<and> deletedPages (snd (cleanup_orphan F f s)) = deletedPages (snd s)
   \<and> deletedFiles (snd (cleanup_orphan F f s)) = deletedFiles (snd s)
   \<and> prefix (errors (snd s)) (errors (snd (cleanup_orphan F f s)))"
  by (simp add: cleanup_orphan_def Let_def split: sum.split)

lemma fold_cleanup_orphan_keeps:
  "w_db (fst (fold (cleanup_orphan F) fs s)) = w_db (fst s)
   \<and> deletedPages (snd (fold (cleanup_orphan F) fs s)) = deletedPages (snd s)
   \<and> deletedFiles (snd (fold (cleanup_orphan F) fs s)) = deletedFiles (snd s)
   \<and> prefix (errors (snd s)) (errors (snd (fold (cleanup_orphan F) fs s)))"
proof (induction fs arbitrary: s)
  case Nil
  show ?case by simp
next
  case (Cons f fs)
  show ?case
    using Cons.IH [of "cleanup_orphan F f s"] cleanup_orphan_keeps [of F f s]
    by (auto intro: prefix_order.trans)
qed

lemma cleanup_page_files:
  "set (map fst (fs_files (w_fs (fst (cleanup_page F page s)))))
     \<subseteq> set (map fst (fs_files (w_fs (fst s))))
   \<and> fs_dirs (w_fs (fst (cleanup_page F page s))) = fs_dirs (w_fs (fst s))"
  by (auto simp: cleanup_page_def cleanup_try_def Let_def case_prod_beta db_deletePage_def
      unlinkSync_def split: option.splits sum.splits if_splits)

lemma cleanup_pages_files:
  "set (map fst (fs_files (w_fs (fst (cleanup_pages F ps s)))))
     \<subseteq> set (map fst (fs_files (w_fs (fst s))))
   \<and> fs_dirs (w_fs (fst (cleanup_pages F ps s))) = fs_dirs (w_fs (fst s))"
proof (induction ps arbitrary: s)
  case Nil
  show ?case by (simp add: cleanup_pages_def)
next
  case (Cons a ps)
  note one = cleanup_page_files [of F a s]
  note rest = Cons.IH [of "cleanup_page F a s"]
  have "set (map fst (fs_files (w_fs (fst (cleanup_pages F ps (cleanup_page F a s))))))
          \<subseteq> set (map fst (fs_files (w_fs (fst s))))"
    using one rest by (blast intro: order_trans)
  then show ?case
    unfolding cleanup_pages_Cons using one rest by simp
qed

text \<open>
  \<^verbatim>\<open>cleanup\<close> returns its results unless the content directory is a regular file.
\<close>

lemma cleanup_returns_results:
  assumes "contentDir \<notin> set (map fst (fs_files (w_fs w)))"
  shows "\<exists>res w2. cleanup F w ps contentDir = (Inr res, w2)"
proof -
  let ?s1 = "cleanup_pages F ps (w, initial_results)"
  have "contentDir \<notin> set (map fst (fs_files (w_fs (fst ?s1))))"
    using assms cleanup_pages_files [of F ps "(w, initial_results)"] by auto
  then have "\<exists>orphaned. findOrphanedFiles (fst ?s1) contentDir = Inr orphaned"
    by (auto simp: findOrphanedFiles_def existsSync_def isDirectory_def)
  then show ?thesis
    by (auto simp: cleanup_def Let_def)
qed

lemma cleanup_returns:
  assumes "cleanup F w ps contentDir = (Inr res, wfin)"
  shows "w_db wfin = w_db (fst (cleanup_pages F ps (w, initial_results)))
       \<and> deletedPages res = deletedPages (snd (cleanup_pages F ps (w, initial_results)))
       \<and> deletedFiles res = deletedFiles (snd (cleanup_pages F ps (w, initial_results)))
       \<and> prefix (errors (snd (cleanup_pages F ps (w, initial_results)))) (errors res)"
  using assms fold_cleanup_orphan_keeps [of F _ "cleanup_pages F ps (w, initial_results)"]
  by (auto simp: cleanup_def Let_def split: sum.splits)

lemma cleanup_pages_removes:
  assumes "q \<in> set ps" and "db_delete_fault F (page_id q) = None"
  shows "getPage (w_db (fst (cleanup_pages F ps s))) (page_id q) = None"
proof -
  have in_ps: "page_id q \<in> page_id ` set ps"
    using assms(1) by (rule imageI)
  have "page_id r \<noteq> page_id q" if "r \<in> set (w_db (fst (cleanup_pages F ps s)))" for r
  proof
    assume eq: "page_id r = page_id q"
    from that have "\<not> (page_id r \<in> page_id ` set ps \<and> db_delete_fault F (page_id r) = None)"
      by (simp add: cleanup_pages_db)
    with eq in_ps assms(2) show False by simp
  qed
  then show ?thesis
    unfolding getPage_None_iff by force
qed



lemma unlinkSync_files:
  assumes "unlinkSync F fs p = Inr fs'"
  shows "fs_files fs' = filter (\<lambda>f. fst f \<noteq> p) (fs_files fs) \<and> fs_dirs fs' = fs_dirs fs
       \<and> p \<in> set (map fst (fs_files fs))"
  using assms by (auto simp: unlinkSync_def split: option.splits if_splits)

lemma distinct_remove_one:
  assumes "distinct (map fst fs)" and "p \<in> set (map fst fs)"
  shows "Suc (length (filter (\<lambda>f. fst f \<noteq> p) fs)) = length fs"
  using assms
proof (induction fs)
  case Nil
  then show ?case by simp
next
  case (Cons a fs)
  show ?case
  proof (cases "fst a = p")
    case True
    with Cons.prems have "p \<notin> set (map fst fs)" by auto
    then have "filter (\<lambda>f. fst f \<noteq> p) fs = fs"
      by (induction fs) auto
    with True show ?thesis by simp
  next
    case False
    with Cons show ?thesis by auto
  qed
qed

lemma cleanup_page_disk:
  assumes "distinct (map fst (fs_files (w_fs (fst s))))"
  shows "distinct (map fst (fs_files (w_fs (fst (cleanup_page F page s)))))
       \<and> set (map fst (fs_files (w_fs (fst (cleanup_page F page s)))))
           \<subseteq> set (map fst (fs_files (w_fs (fst s))))
       \<and> fs_dirs (w_fs (fst (cleanup_page F page s))) = fs_dirs (w_fs (fst s))
       \<and> length (fs_files (w_fs (fst (cleanup_page F page s))))
           + deletedFiles (snd (cleanup_page F page s))
           = length (fs_files (w_fs (fst s))) + deletedFiles (snd s)"
proof (cases "db_deletePage F (w_db (fst s)) (page_id page)")
  case (Inl msg)
  with assms show ?thesis
    by (simp add: cleanup_page_def cleanup_try_def Let_def case_prod_beta)
next
  case (Inr db')
  show ?thesis
  proof (cases "file_path page")
    case None
    with Inr assms show ?thesis
      by (simp add: cleanup_page_def cleanup_try_def Let_def case_prod_beta)
  next
    case (Some fp)
    show ?thesis
    proof (cases "fp \<noteq> [] \<and> existsSync (w_fs (fst s)) fp")
      case False
      with Inr Some assms show ?thesis
        by (auto simp add: cleanup_page_def cleanup_try_def Let_def case_prod_beta)
    next
      case True
      show ?thesis
      proof (cases "unlinkSync F (w_fs (fst s)) fp")
        case (Inl msg)
        with Inr Some True assms show ?thesis
          by (simp add: cleanup_page_def cleanup_try_def Let_def case_prod_beta)
      next
        case unl: (Inr fs')
        note u = unlinkSync_files [OF unl]
        have st: "cleanup_page F page s
                    = ((fst s)\<lparr>w_db := db', w_fs := fs'\<rparr>,
                       (snd s)\<lparr>deletedPages := deletedPages (snd s) + 1,
                               deletedFiles := deletedFiles (snd s) + 1\<rparr>)"
          using Inr Some True unl by (simp add: cleanup_page_def cleanup_try_def Let_def case_prod_beta)
        have len: "Suc (length (fs_files fs')) = length (fs_files (w_fs (fst s)))"
          using u assms distinct_remove_one [of "fs_files (w_fs (fst s))" fp] by simp
        have dis: "distinct (map fst (fs_files fs'))"
          using u assms by (simp add: distinct_map_filter)
        have sub: "set (map fst (fs_files fs')) \<subseteq> set (map fst (fs_files (w_fs (fst s))))"
          using u by auto
        from st len dis sub u show ?thesis by simp
      qed
    qed
  qed
qed

lemma cleanup_pages_disk:
  assumes "distinct (map fst (fs_files (w_fs (fst s))))"
  shows "distinct (map fst (fs_files (w_fs (fst (cleanup_pages F ps s)))))
       \<and> set (map fst (fs_files (w_fs (fst (cleanup_pages F ps s)))))
           \<subseteq> set (map fst (fs_files (w_fs (fst s))))
       \<and> fs_dirs (w_fs (fst (cleanup_pages F ps s))) = fs_dirs (w_fs (fst s))
       \<and> length (fs_files (w_fs (fst (cleanup_pages F ps s))))
           + deletedFiles (snd (cleanup_pages F ps s))
           = length (fs_files (w_fs (fst s))) + deletedFiles (snd s)"
  using assms
proof (induction ps arbitrary: s)
  case Nil
  then show ?case by (simp add: cleanup_pages_def)
next
  case (Cons a ps)
  note one = cleanup_page_disk [OF Cons.prems, of F a]
  from one have "distinct (map fst (fs_files (w_fs (fst (cleanup_page F a s)))))"
    by blast
  note rest = Cons.IH [OF this]
  have sub: "set (map fst (fs_files (w_fs (fst (cleanup_pages F ps (cleanup_page F a s))))))
               \<subseteq> set (map fst (fs_files (w_fs (fst s))))"
    using one rest by (blast intro: order_trans)
  show ?case
    unfolding cleanup_pages_Cons using one rest sub by simp
qed

text \<open>
  C8 (per-deletion fault isolation). Let the \<^verbatim>\<open>try\<close> block of a page raise, after
  the pages before it were processed, and let \<^verbatim>\<open>cleanup\<close> return its results. Then
  the loop continues with the pages after it from the state the block was left with,
  to which exactly the entry of that page (its id and the message) is added; the block
  itself adds no entry and does not count a deleted file, and it counts a deleted
  record only when the record was deleted before the error; the errors returned start
  with the entries up to and including that entry; the count of deleted records
  returned is the number of pages whose record deletion did not raise; the record of
  every later page whose deletion does not raise is gone from the store; and the count
  of deleted files is the number of files that left the disk during the loop.
\<close>

theorem cleanup_fault_isolation:
  assumes raised: "cleanup_try F page (cleanup_pages F pre (w, initial_results))
                     = (Some msg, w', results')"
    and returns: "cleanup F w (pre @ page # post) contentDir = (Inr res, wfin)"
  shows "cleanup_pages F (pre @ page # post) (w, initial_results)
           = cleanup_pages F post
               (w', results'\<lparr>errors := errors results' @ [PageError (page_id page) msg]\<rparr>)
       \<and> errors results' = errors (snd (cleanup_pages F pre (w, initial_results)))
       \<and> deletedFiles results' = deletedFiles (snd (cleanup_pages F pre (w, initial_results)))
       \<and> deletedPages results'
           = deletedPages (snd (cleanup_pages F pre (w, initial_results)))
             + (if db_delete_fault F (page_id page) = None then 1 else 0)
       \<and> prefix (errors (snd (cleanup_pages F pre (w, initial_results)))
                  @ [PageError (page_id page) msg]) (errors res)
       \<and> deletedPages res
           = length (filter (\<lambda>q. db_delete_fault F (page_id q) = None) (pre @ page # post))
       \<and> (\<forall>q \<in> set post. db_delete_fault F (page_id q) = None
             \<longrightarrow> getPage (w_db wfin) (page_id q) = None)
       \<and> (distinct (map fst (fs_files (w_fs w)))
             \<longrightarrow> length (fs_files (w_fs (fst (cleanup_pages F (pre @ page # post)
                                                  (w, initial_results)))))
                   + deletedFiles res
                 = length (fs_files (w_fs w)))"
proof -
  let ?s1 = "cleanup_pages F pre (w, initial_results)"
  let ?s2 = "(w', results'\<lparr>errors := errors results' @ [PageError (page_id page) msg]\<rparr>)"
  have step: "cleanup_page F page ?s1 = ?s2"
    by (simp add: cleanup_page_def raised)
  have a: "cleanup_pages F (pre @ page # post) (w, initial_results) = cleanup_pages F post ?s2"
    by (simp add: cleanup_pages_append cleanup_pages_Cons step)
  have b: "errors results' = errors (snd ?s1)"
    using cleanup_try_errors [of F page ?s1] by (simp add: raised)
  have c: "deletedFiles results' = deletedFiles (snd ?s1)"
    using cleanup_try_deletedFiles [of F page ?s1] by (simp add: raised)
  have d: "deletedPages results' = deletedPages (snd ?s1)
             + (if db_delete_fault F (page_id page) = None then 1 else 0)"
    using cleanup_try_deletedPages [of F page ?s1] by (simp add: raised)
  note r = cleanup_returns [OF returns]
  obtain es where es: "errors (snd (cleanup_pages F post ?s2)) = errors (snd ?s2) @ es"
    using cleanup_pages_errors [of F post ?s2] by blast
  have "errors (snd (cleanup_pages F (pre @ page # post) (w, initial_results)))
          = errors (snd ?s2) @ es"
    unfolding a by (rule es)
  also have "errors (snd ?s2) = errors (snd ?s1) @ [PageError (page_id page) msg]"
    by (simp add: b)
  finally have "prefix (errors (snd ?s1) @ [PageError (page_id page) msg])
          (errors (snd (cleanup_pages F (pre @ page # post) (w, initial_results))))"
    by simp
  with r have e: "prefix (errors (snd ?s1) @ [PageError (page_id page) msg]) (errors res)"
    by (blast intro: prefix_order.trans)
  have f: "deletedPages res
             = length (filter (\<lambda>q. db_delete_fault F (page_id q) = None) (pre @ page # post))"
    using r by (simp add: cleanup_pages_deletedPages initial_results_def)
  have g: "getPage (w_db wfin) (page_id q) = None"
    if "q \<in> set post" and "db_delete_fault F (page_id q) = None" for q
    using r that cleanup_pages_removes [of q "pre @ page # post" F "(w, initial_results)"]
    by simp
  have h: "length (fs_files (w_fs (fst (cleanup_pages F (pre @ page # post)
                                          (w, initial_results)))))
             + deletedFiles res
           = length (fs_files (w_fs w))"
    if "distinct (map fst (fs_files (w_fs w)))"
    using r that cleanup_pages_disk [of "(w, initial_results)" F "pre @ page # post"]
    by (simp add: initial_results_def)
  from a b c d e f g h show ?thesis by blast
qed

theorem cleanup_fault_isolation_witness:
  "cleanup_try cleanup_faults (stored_row ''1'' ''One'' 1 ''DEV'' (Some ''/content/one.md''))
       (cleanup_pages cleanup_faults [] (cleanup_world, initial_results))
     = (Some ''Database error'', cleanup_world, initial_results)
   \<and> cleanup cleanup_faults cleanup_world cleanup_rows ''/content''
     = (Inr \<lparr>deletedPages = 2, deletedFiles = 1, orphanedFiles = 0,
             errors = [PageError ''1'' ''Database error'',
                       PageError ''3'' ''EACCES: permission denied'',
                       FileError ''/content/locked.md'' ''EACCES: permission denied'']\<rparr>,
        \<lparr>w_db = [stored_row ''1'' ''One'' 1 ''DEV'' (Some ''/content/one.md'')],
         w_fs = \<lparr>fs_files = [(''/content/one.md'', ''# One''),
                             (''/content/locked.md'', ''# Locked'')],
                fs_dirs = [[], ''/content'']\<rparr>\<rparr>)
   \<and> getPage [stored_row ''1'' ''One'' 1 ''DEV'' (Some ''/content/one.md'')] ''2'' = None
   \<and> getPage [stored_row ''1'' ''One'' 1 ''DEV'' (Some ''/content/one.md'')] ''3'' = None
   \<and> length (fs_files (w_fs (fst (cleanup_pages cleanup_faults cleanup_rows
                                      (cleanup_world, initial_results))))) = 2"
proof -
  let ?r1 = "stored_row ''1'' ''One'' 1 ''DEV'' (Some ''/content/one.md'')"
  let ?r2 = "stored_row ''2'' ''Two'' 1 ''DEV'' (Some ''/content/two.md'')"
  let ?r3 = "stored_row ''3'' ''Locked'' 1 ''DEV'' (Some ''/content/locked.md'')"
  let ?res = "\<lparr>deletedPages = 2, deletedFiles = 1, orphanedFiles = 0,
             errors = [PageError ''1'' ''Database error'',
                       PageError ''3'' ''EACCES: permission denied'',
                       FileError ''/content/locked.md'' ''EACCES: permission denied'']\<rparr>"
  let ?w2 = "\<lparr>w_db = [?r1],
         w_fs = \<lparr>fs_files = [(''/content/one.md'', ''# One''),
                             (''/content/locked.md'', ''# Locked'')],
                fs_dirs = [[], ''/content'']\<rparr>\<rparr>"
  have raised: "cleanup_try cleanup_faults ?r1
       (cleanup_pages cleanup_faults [] (cleanup_world, initial_results))
     = (Some ''Database error'', cleanup_world, initial_results)"
    by code_simp
  have returns: "cleanup cleanup_faults cleanup_world ([] @ ?r1 # [?r2, ?r3]) ''/content''
     = (Inr ?res, ?w2)"
    by code_simp
  have rows: "[] @ ?r1 # [?r2, ?r3] = cleanup_rows"
    by (simp add: cleanup_rows_def)
  have dist: "distinct (map fst (fs_files (w_fs cleanup_world)))"
    by (simp add: cleanup_world_def)
  have nofault: "db_delete_fault cleanup_faults (page_id ?r2) = None"
      "db_delete_fault cleanup_faults (page_id ?r3) = None"
    by (simp_all add: cleanup_faults_def stored_row_def)
  have len: "length (fs_files (w_fs cleanup_world)) = 3"
    by (simp add: cleanup_world_def)
  note T = cleanup_fault_isolation [OF raised returns]
  from T have "\<forall>q \<in> set [?r2, ?r3]. db_delete_fault cleanup_faults (page_id q) = None
             \<longrightarrow> getPage (w_db ?w2) (page_id q) = None"
    by blast
  with nofault have g: "getPage [?r1] ''2'' = None" "getPage [?r1] ''3'' = None"
    by (simp_all add: stored_row_def)
  from T dist
  have "length (fs_files (w_fs (fst (cleanup_pages cleanup_faults ([] @ ?r1 # [?r2, ?r3])
                                       (cleanup_world, initial_results)))))
          + deletedFiles ?res
          = length (fs_files (w_fs cleanup_world))"
    by blast
  with len
  have l: "length (fs_files (w_fs (fst (cleanup_pages cleanup_faults cleanup_rows
                                          (cleanup_world, initial_results))))) = 2"
    unfolding rows by simp
  from raised returns g l show ?thesis
    unfolding rows by simp
qed

section \<open>Page storage: saving a page\<close>

lemma writeFileSync_exists:
  assumes "writeFileSync F fs p content = Inr fs'" and "p \<noteq> []"
  shows "existsSync fs' p"
  using assms
  by (auto simp: writeFileSync_def existsSync_def split: option.splits if_splits)

lemma getPageFilePath_nonempty: "getPageFilePath cfg page \<noteq> []"
  by (simp add: getPageFilePath_def path_join_def)

lemma find_snoc:
  "find P (xs @ [x]) = (case find P xs of None \<Rightarrow> if P x then Some x else None | Some y \<Rightarrow> Some y)"
  by (induction xs) auto

lemma getPage_map_row:
  assumes "\<exists>r \<in> set db. page_id r = page_id row"
  shows "getPage (map (\<lambda>r. if page_id r = page_id row then row else r) db) (page_id row)
           = Some row"
  using assms by (induction db) (auto simp: getPage_def)

lemma getPage_upsertPage: "getPage (upsertPage db a) (u_pageId a) = Some (row_of a)"
proof (cases "\<exists>r \<in> set db. page_id r = u_pageId a")
  case True
  have id: "page_id (row_of a) = u_pageId a"
    by (simp add: row_of_def)
  from True show ?thesis
    using getPage_map_row [of db "row_of a"] by (simp add: upsertPage_def id)
next
  case False
  then have "find (\<lambda>r. page_id r = u_pageId a) db = None"
    by (auto simp: find_None_iff)
  with False show ?thesis
    by (simp add: upsertPage_def getPage_def find_snoc row_of_def)
qed

text \<open>
  A successful save leaves the record of the page in the store, with the version and
  the title of the page: the page is then classified UNCHANGED.
\<close>

lemma savePageWithMetadata_synced:
  assumes "r_success (fst (savePageWithMetadata F cfg now w page markdown storeName))"
  shows "\<exists>r. getPage (w_db (snd (savePageWithMetadata F cfg now w page markdown storeName)))
              (pg_id page) = Some r
           \<and> version r = pg_version_number page \<and> title r = pg_title page"
proof (cases "writeFileSync F (w_fs w) (getPageFilePath cfg page) markdown")
  case (Inl e)
  with assms show ?thesis
    by (simp add: savePageWithMetadata_def savePage_def Let_def)
next
  case (Inr fs')
  show ?thesis
  proof (cases "db_upsert_fault F (pg_id page)")
    case None
    with Inr show ?thesis
      by (simp add: savePageWithMetadata_def savePage_def Let_def db_upsertPage_def
          getPage_upsertPage [of _ "\<lparr>u_pageId = pg_id page, u_spaceKey = sk, u_title = t,
            u_version = v, u_lastSynced = l, u_filePath = fp, u_fileSearchStoreName = sn,
            u_url = u\<rparr>" for sk t v l fp sn u, simplified] row_of_def)
  next
    case (Some msg)
    with Inr assms show ?thesis
      by (simp add: savePageWithMetadata_def savePage_def Let_def db_upsertPage_def)
  qed
qed

text \<open>
  C9 (save atomicity). If writing the file raises, \<^verbatim>\<open>savePageWithMetadata\<close> reports
  no success and leaves the store and the disk as they were. If the file is written
  and the upsert raises, it reports no success, carries the path of the written file
  and the message of the failed update, leaves the store as it was, and the file is on
  the disk.
\<close>

theorem save_atomicity:
  "(writeFileSync F (w_fs w) (getPageFilePath cfg page) markdown = Inl e \<longrightarrow>
      r_success (fst (savePageWithMetadata F cfg now w page markdown storeName)) = False
      \<and> snd (savePageWithMetadata F cfg now w page markdown storeName) = w)
   \<and> (writeFileSync F (w_fs w) (getPageFilePath cfg page) markdown = Inr fs'
        \<and> db_upsert_fault F (pg_id page) = Some msg \<longrightarrow>
      fst (savePageWithMetadata F cfg now w page markdown storeName)
        = \<lparr>r_success = False, r_filePath = Some (getPageFilePath cfg page), r_pageId = None,
           r_error = Some (''File saved but database update failed: '' @ msg)\<rparr>
      \<and> w_db (snd (savePageWithMetadata F cfg now w page markdown storeName)) = w_db w
      \<and> w_fs (snd (savePageWithMetadata F cfg now w page markdown storeName)) = fs'
      \<and> existsSync fs' (getPageFilePath cfg page))"
proof -
  have a: "r_success (fst (savePageWithMetadata F cfg now w page markdown storeName)) = False
      \<and> snd (savePageWithMetadata F cfg now w page markdown storeName) = w"
    if "writeFileSync F (w_fs w) (getPageFilePath cfg page) markdown = Inl e"
    using that by (simp add: savePageWithMetadata_def savePage_def Let_def)
  have b: "fst (savePageWithMetadata F cfg now w page markdown storeName)
        = \<lparr>r_success = False, r_filePath = Some (getPageFilePath cfg page), r_pageId = None,
           r_error = Some (''File saved but database update failed: '' @ msg)\<rparr>
      \<and> w_db (snd (savePageWithMetadata F cfg now w page markdown storeName)) = w_db w
      \<and> w_fs (snd (savePageWithMetadata F cfg now w page markdown storeName)) = fs'
      \<and> existsSync fs' (getPageFilePath cfg page)"
    if "writeFileSync F (w_fs w) (getPageFilePath cfg page) markdown = Inr fs'"
      and "db_upsert_fault F (pg_id page) = Some msg"
    using that writeFileSync_exists [OF that(1) getPageFilePath_nonempty]
    by (simp add: savePageWithMetadata_def savePage_def Let_def db_upsertPage_def)
  from a b show ?thesis by blast
qed

theorem save_atomicity_witness:
  "writeFileSync no_faults (w_fs empty_world) (getPageFilePath test_config invalid_page) ''# Test''
     = Inl ''ENOENT: no such file or directory''
   \<and> r_success (fst (savePageWithMetadata no_faults test_config ''2024-01-01T00:00:00.000Z''
                       empty_world invalid_page ''# Test'' None)) = False
   \<and> snd (savePageWithMetadata no_faults test_config ''2024-01-01T00:00:00.000Z''
            empty_world invalid_page ''# Test'' None) = empty_world
   \<and> fst (savePageWithMetadata locked_store test_config ''2024-01-01T00:00:00.000Z''
            empty_world test_page ''# Test'' None)
       = \<lparr>r_success = False, r_filePath = Some ''/content/docs_test-123_test-page.md'',
          r_pageId = None,
          r_error = Some ''File saved but database update failed: database is locked''\<rparr>
   \<and> w_db (snd (savePageWithMetadata locked_store test_config ''2024-01-01T00:00:00.000Z''
                  empty_world test_page ''# Test'' None)) = []
   \<and> existsSync \<lparr>fs_files = [(''/content/docs_test-123_test-page.md'', ''# Test'')],
                  fs_dirs = [[], ''/content'']\<rparr> ''/content/docs_test-123_test-page.md''"
proof -
  have p: "getPageFilePath test_config test_page = ''/content/docs_test-123_test-page.md''"
    by code_simp
  have fails: "writeFileSync no_faults (w_fs empty_world)
                 (getPageFilePath test_config invalid_page) ''# Test''
               = Inl ''ENOENT: no such file or directory''"
    by code_simp
  have written: "writeFileSync locked_store (w_fs empty_world)
                   (getPageFilePath test_config test_page) ''# Test''
                 = Inr \<lparr>fs_files = [(''/content/docs_test-123_test-page.md'', ''# Test'')],
                        fs_dirs = [[], ''/content'']\<rparr>"
    by code_simp
  have locked: "db_upsert_fault locked_store (pg_id test_page) = Some ''database is locked''"
    by (simp add: locked_store_def)
  have db: "w_db empty_world = []"
    by (simp add: empty_world_def)
  show ?thesis
    using save_atomicity [of no_faults empty_world test_config invalid_page "''# Test''"
        "''ENOENT: no such file or directory''" "''2024-01-01T00:00:00.000Z''" None]
      save_atomicity [of locked_store empty_world test_config test_page "''# Test''" _
        "''2024-01-01T00:00:00.000Z''" None
        "\<lparr>fs_files = [(''/content/docs_test-123_test-page.md'', ''# Test'')],
          fs_dirs = [[], ''/content'']\<rparr>" "''database is locked''"]
      fails written locked p db
    by simp
qed

section \<open>Page storage: file names\<close>

lemma lower_word: "is_word c \<Longrightarrow> filename_char (toLowerCase_char c)"
  by (auto simp: is_word_def filename_char_def toLowerCase_char_def Let_def)

lemma of_char_lower:
  "(of_char (toLowerCase_char c) :: nat)
     = (if (65 \<le> (of_char c :: nat) \<and> (of_char c :: nat) \<le> 90)
           \<or> (192 \<le> (of_char c :: nat) \<and> (of_char c :: nat) \<le> 214)
           \<or> (216 \<le> (of_char c :: nat) \<and> (of_char c :: nat) \<le> 222)
        then of_char c + 32 else of_char c)"
proof (cases "(65 \<le> (of_char c :: nat) \<and> (of_char c :: nat) \<le> 90)
           \<or> (192 \<le> (of_char c :: nat) \<and> (of_char c :: nat) \<le> 214)
           \<or> (216 \<le> (of_char c :: nat) \<and> (of_char c :: nat) \<le> 222)")
  case True
  then have le: "(of_char c :: nat) + 32 < 256"
    by linarith
  from True have "toLowerCase_char c = char_of ((of_char c :: nat) + 32)"
    unfolding toLowerCase_char_def Let_def by (simp only: if_True)
  then have "(of_char (toLowerCase_char c) :: nat) = ((of_char c :: nat) + 32) mod 256"
    by (simp only: of_char_of)
  with le True show ?thesis
    by (simp only: mod_less if_True)
next
  case False
  then have "toLowerCase_char c = c"
    unfolding toLowerCase_char_def Let_def by (simp only: if_False)
  with False show ?thesis
    by (simp only: if_False)
qed

lemma lower_hyphen: "toLowerCase_char c = CHR ''-'' \<longleftrightarrow> c = CHR ''-''"
proof
  assume "toLowerCase_char c = CHR ''-''"
  then have "(of_char (toLowerCase_char c) :: nat) = 45"
    by simp
  then have "(of_char c :: nat) = 45"
    by (auto simp: of_char_lower split: if_splits)
  then have "(of_char c :: nat) = of_char CHR ''-''"
    by simp
  then show "c = CHR ''-''"
    by (simp only: of_char_eq_iff)
next
  assume "c = CHR ''-''"
  then show "toLowerCase_char c = CHR ''-''"
    by (simp add: toLowerCase_char_def)
qed

lemma lower_hyphen': "CHR ''-'' = toLowerCase_char c \<longleftrightarrow> c = CHR ''-''"
  using lower_hyphen [of c] by auto

lemma no_double_tl: "no_double s \<Longrightarrow> no_double (tl s)"
  by (induction s rule: no_double.induct) auto

lemma no_double_butlast: "no_double s \<Longrightarrow> no_double (butlast s)"
  by (induction s rule: no_double.induct) (auto split: if_splits)

lemma no_double_take: "no_double s \<Longrightarrow> no_double (take n s)"
proof (induction s arbitrary: n rule: no_double.induct)
  case (1 a b cs)
  show ?case
  proof (cases n)
    case 0
    then show ?thesis by simp
  next
    case (Suc m)
    show ?thesis
    proof (cases m)
      case 0
      with Suc show ?thesis by simp
    next
      case (Suc k)
      from 1(2) have nb: "no_double (b # cs)"
        by simp
      have "no_double (take (Suc k) (b # cs))"
        by (rule 1(1) [OF nb])
      with 1(2) \<open>n = Suc m\<close> Suc show ?thesis by simp
    qed
  qed
qed (auto simp: take_Cons')

lemma no_double_lower: "no_double s \<Longrightarrow> no_double (map toLowerCase_char s)"
  by (induction s rule: no_double.induct) (auto simp: lower_hyphen)

lemma replace_hyphens_head:
  "replace_runs (\<lambda>c. c = CHR ''-'') ''-'' (dropWhile (\<lambda>c. c = CHR ''-'') cs) \<noteq> CHR ''-'' # t"
proof (cases "dropWhile (\<lambda>c. c = CHR ''-'') cs")
  case Nil
  show ?thesis
    unfolding Nil by simp
next
  case (Cons d ds)
  then have "d \<noteq> CHR ''-''"
    using hd_dropWhile [of "\<lambda>c. c = CHR ''-''" cs] by auto
  then show ?thesis
    unfolding Cons by simp
qed

lemma no_double_cons: "no_double s \<Longrightarrow> (\<And>t. s \<noteq> CHR ''-'' # t) \<Longrightarrow> no_double (c # s)"
  by (cases s) auto

lemma no_double_cons': "no_double s \<Longrightarrow> c \<noteq> CHR ''-'' \<Longrightarrow> no_double (c # s)"
  by (cases s) auto

lemma no_double_replace: "no_double (replace_runs (\<lambda>c. c = CHR ''-'') ''-'' s)"
proof (induction "\<lambda>c. c = CHR ''-''" "''-''" s rule: replace_runs.induct)
  case 1
  show ?case by simp
next
  case (2 c cs)
  show ?case
  proof (cases "c = CHR ''-''")
    case True
    with 2 show ?thesis
      by (simp add: no_double_cons replace_hyphens_head)
  next
    case False
    with 2 show ?thesis
      by (simp add: no_double_cons')
  qed
qed

lemma no_double_sublist: "no_double s \<Longrightarrow> \<not> sublist ''--'' s"
  by (induction s rule: no_double.induct) (auto simp: sublist_Cons_right)

lemma set_replace_runs: "set (replace_runs X r s) \<subseteq> set s \<union> set r"
  by (induction X r s rule: replace_runs.induct) (auto dest: set_dropWhileD)

lemma set_trim_hyphens: "set (trim_hyphens s) \<subseteq> set s"
  by (auto simp: trim_hyphens_def Let_def dest: in_set_dropD in_set_butlastD)

lemma prefix_hyphen: "prefix ''-'' s \<longleftrightarrow> (\<exists>t. s = CHR ''-'' # t)"
  by (cases s) auto

lemma suffix_hyphen: "suffix ''-'' s \<longleftrightarrow> s \<noteq> [] \<and> last s = CHR ''-''"
proof
  assume "suffix ''-'' s"
  then obtain t where "s = t @ ''-''" by (auto simp: suffix_def)
  then show "s \<noteq> [] \<and> last s = CHR ''-''" by simp
next
  assume "s \<noteq> [] \<and> last s = CHR ''-''"
  then have "s = butlast s @ ''-''"
    using append_butlast_last_id [of s] by simp
  then show "suffix ''-'' s"
    unfolding suffix_def by blast
qed

lemma no_double_butlast_last:
  "no_double s \<Longrightarrow> s \<noteq> [] \<Longrightarrow> last s = CHR ''-'' \<Longrightarrow> \<not> suffix ''-'' (butlast s)"
  by (induction s rule: no_double.induct) (auto simp: suffix_hyphen split: if_splits)

lemma trim_no_lead:
  assumes "no_double s"
  shows "\<not> prefix ''-'' (trim_hyphens s)"
proof -
  define s1 where "s1 = (if prefix ''-'' s then drop 1 s else s)"
  have a: "\<not> prefix ''-'' s1"
    using assms unfolding s1_def by (cases s; cases "tl s") (auto simp: prefix_hyphen)
  have b: "\<not> prefix ''-'' (butlast s1)"
    using a by (cases s1) (auto simp: prefix_hyphen)
  from a b show ?thesis
    unfolding trim_hyphens_def Let_def s1_def [symmetric] by simp
qed

lemma trim_no_trail:
  assumes "no_double s"
  shows "\<not> suffix ''-'' (trim_hyphens s)"
proof -
  define s1 where "s1 = (if prefix ''-'' s then drop 1 s else s)"
  have nd: "no_double s1"
    using assms no_double_tl [of s] unfolding s1_def by (simp add: drop_Suc)
  have "\<not> suffix ''-'' (butlast s1)" if "suffix ''-'' s1"
    using that nd no_double_butlast_last [of s1] by (simp add: suffix_hyphen)
  then show ?thesis
    unfolding trim_hyphens_def Let_def s1_def [symmetric] by simp
qed

lemma trim_no_double: "no_double s \<Longrightarrow> no_double (trim_hyphens s)"
  by (simp add: trim_hyphens_def Let_def no_double_butlast no_double_tl drop_Suc)

lemma lower_prefix: "prefix ''-'' (toLowerCase s) \<longleftrightarrow> prefix ''-'' s"
  by (cases s) (auto simp: toLowerCase_def prefix_hyphen lower_hyphen lower_hyphen')

lemma lower_suffix: "suffix ''-'' (toLowerCase s) \<longleftrightarrow> suffix ''-'' s"
  by (cases "s = []") (auto simp: toLowerCase_def suffix_hyphen last_map lower_hyphen lower_hyphen')

lemma take_prefix: "prefix ''-'' (take n s) \<Longrightarrow> prefix ''-'' s"
  by (cases s; cases n) (auto simp: prefix_hyphen)

lemma chain_word:
  "list_all is_word
     (trim_hyphens (replace_runs (\<lambda>c. c = CHR ''-'') ''-''
        (filter is_word (replace_runs is_space ''-'' t))))"
proof -
  have h: "is_word CHR ''-''"
    by (simp add: is_word_def)
  have "set (trim_hyphens (replace_runs (\<lambda>c. c = CHR ''-'') ''-''
          (filter is_word (replace_runs is_space ''-'' t))))
        \<subseteq> set (filter is_word (replace_runs is_space ''-'' t)) \<union> set ''-''"
    using set_trim_hyphens set_replace_runs by (rule order_trans)
  with h show ?thesis
    by (auto simp: list_all_iff)
qed

lemma chain_safe: "list_all filename_char (sanitize_chain t)"
  using chain_word [of t]
  by (simp add: sanitize_chain_def toLowerCase_def list_all_iff lower_word)

lemma chain_no_double: "no_double (sanitize_chain t)"
  by (simp add: sanitize_chain_def toLowerCase_def no_double_lower trim_no_double
      no_double_replace)

lemma chain_no_lead: "\<not> prefix ''-'' (sanitize_chain t)"
  by (simp add: sanitize_chain_def lower_prefix trim_no_lead no_double_replace)

lemma chain_no_trail: "\<not> suffix ''-'' (sanitize_chain t)"
  by (simp add: sanitize_chain_def lower_suffix trim_no_trail no_double_replace)

lemma lower_safe: "list_all is_word s \<Longrightarrow> list_all filename_char (toLowerCase s)"
  by (simp add: toLowerCase_def list_all_iff lower_word)

text \<open>
  C10 (file name safety), as stated: the sanitised title would never end with a hyphen,
  and the generated file name would be safe for the file system. The cut to 100
  characters comes after the hyphens are trimmed: a title of 99 letters, a space and a
  letter gives 99 letters and a hyphen. The space key and the page id go into the file
  name as they are: the space key of the storage test puts separators into it.
\<close>

theorem sanitizeFilename_counterexample:
  "sanitizeFilename (replicate 99 CHR ''a'' @ '' b'') = replicate 99 CHR ''a'' @ ''-''
   \<and> suffix ''-'' (sanitizeFilename (replicate 99 CHR ''a'' @ '' b''))
   \<and> generateFilename invalid_page = ''/invalid/path/_test-123_test-page''
   \<and> \<not> list_all filename_char (generateFilename invalid_page)"
proof -
  have a: "sanitizeFilename (replicate 99 CHR ''a'' @ '' b'') = replicate 99 CHR ''a'' @ ''-''"
    by code_simp
  have b: "generateFilename invalid_page = ''/invalid/path/_test-123_test-page''"
    by code_simp
  have c: "\<not> filename_char CHR ''/''"
    by (simp add: filename_char_def)
  from a have "suffix ''-'' (sanitizeFilename (replicate 99 CHR ''a'' @ '' b''))"
    by (simp add: suffix_def)
  with a b c show ?thesis
    by simp
qed

text \<open>
  C10, amended. For every title, \<^verbatim>\<open>sanitizeFilename\<close> returns at most 100
  characters, all of them lower-case letters, digits, hyphens or underscores, with no
  two hyphens in a row and no hyphen at the start; it has no hyphen at the end when the
  name before the cut has at most 100 characters. \<^verbatim>\<open>generateFilename\<close> is the
  lower-cased space key, the page id and the sanitised title joined by underscores, a
  function of these three; its characters are safe when the space key consists of
  letters, digits, hyphens and underscores and the page id of lower-case letters,
  digits, hyphens and underscores.
\<close>

theorem sanitizeFilename_safe:
  "length (sanitizeFilename t) \<le> 100
   \<and> list_all filename_char (sanitizeFilename t)
   \<and> \<not> sublist ''--'' (sanitizeFilename t)
   \<and> \<not> prefix ''-'' (sanitizeFilename t)
   \<and> (length (sanitize_chain t) \<le> 100 \<longrightarrow> \<not> suffix ''-'' (sanitizeFilename t))
   \<and> generateFilename page
       = toLowerCase (pg_space_key page) @ ''_'' @ pg_id page @ ''_''
         @ sanitizeFilename (pg_title page)
   \<and> (list_all is_word (pg_space_key page) \<and> list_all filename_char (pg_id page)
        \<longrightarrow> list_all filename_char (generateFilename page))"
proof -
  have safe: "list_all filename_char (sanitizeFilename s)" for s
    using chain_safe [of s]
    by (auto simp: sanitizeFilename_def list_all_iff dest: in_set_takeD)
  have a: "length (sanitizeFilename t) \<le> 100"
    by (simp add: sanitizeFilename_def)
  have c: "\<not> sublist ''--'' (sanitizeFilename t)"
    by (simp add: sanitizeFilename_def no_double_sublist no_double_take chain_no_double)
  have d: "\<not> prefix ''-'' (sanitizeFilename t)"
    using chain_no_lead [of t] take_prefix [of 100 "sanitize_chain t"]
    by (auto simp: sanitizeFilename_def)
  have e: "\<not> suffix ''-'' (sanitizeFilename t)" if "length (sanitize_chain t) \<le> 100"
    using that chain_no_trail [of t] by (simp add: sanitizeFilename_def)
  have f: "generateFilename page
       = toLowerCase (pg_space_key page) @ ''_'' @ pg_id page @ ''_''
         @ sanitizeFilename (pg_title page)"
    by (simp add: generateFilename_def Let_def)
  have u: "filename_char CHR ''_''"
    by (simp add: filename_char_def)
  have g: "list_all filename_char (generateFilename page)"
    if "list_all is_word (pg_space_key page)" and "list_all filename_char (pg_id page)"
    using that lower_safe [of "pg_space_key page"] safe [of "pg_title page"] u
    by (simp add: f)
  from safe [of t] a c d e f g show ?thesis by blast
qed

theorem sanitizeFilename_safe_witness:
  "sanitizeFilename ''Simple Page Title'' = ''simple-page-title''
   \<and> length (sanitize_chain ''Simple Page Title'') \<le> 100
   \<and> \<not> suffix ''-'' (sanitizeFilename ''Simple Page Title'')
   \<and> list_all is_word (pg_space_key test_page)
   \<and> list_all filename_char (pg_id test_page)
   \<and> generateFilename test_page = ''docs_test-123_test-page''
   \<and> list_all filename_char (generateFilename test_page)"
proof -
  have a: "sanitizeFilename ''Simple Page Title'' = ''simple-page-title''"
    by code_simp
  have b: "length (sanitize_chain ''Simple Page Title'') \<le> 100"
    by code_simp
  have c: "list_all is_word (pg_space_key test_page)"
    by code_simp
  have d: "list_all filename_char (pg_id test_page)"
    by code_simp
  have e: "generateFilename test_page = ''docs_test-123_test-page''"
    by code_simp
  note T = sanitizeFilename_safe [of "''Simple Page Title''" test_page]
  from T b have f: "\<not> suffix ''-'' (sanitizeFilename ''Simple Page Title'')"
    by blast
  from T c d have g: "list_all filename_char (generateFilename test_page)"
    by blast
  from a b c d e f g show ?thesis
    by blast
qed

section \<open>Confluence client: the page limit\<close>

text \<open>
  C5 (fetch bound). The loop tests the number of pages collected before it asks for the
  next batch and appends every batch whole. With three pages allowed, the default
  batch size of 100 and a space of four pages, the client returns the four pages; with
  a batch size of two it returns them as well, after a second request.
\<close>

theorem getAllPages_exceeds_limit:
  "getAllPages_client four_page_space three_page_config ''DEV'' 100 = Some (Inr four_pages)
   \<and> getAllPages_client four_page_space three_page_config ''DEV'' 2 = Some (Inr four_pages)
   \<and> cfg_maxPagesPerSync three_page_config = 3
   \<and> length four_pages = 4"
proof -
  have a: "getAllPages_client four_page_space three_page_config ''DEV'' 100
             = Some (Inr four_pages)"
    by (simp add: getAllPages_client_def getAllPages_loop.simps four_page_space_def
        three_page_config_def four_pages_def)
  have b: "getAllPages_client four_page_space three_page_config ''DEV'' 2
             = Some (Inr four_pages)"
    by (simp add: getAllPages_client_def getAllPages_loop.simps four_page_space_def
        three_page_config_def four_pages_def)
  show ?thesis
    using a b by (simp add: three_page_config_def four_pages_def)
qed

text \<open>
  What the loop does guarantee: when no batch is longer than the limit asked for, the
  list returned is shorter than the allowed number plus the limit.
\<close>

lemma getAllPages_loop_bound_aux:
  assumes "getAllPages_loop get cfg spaceKey limit pages start hasMore = Some y"
  shows "(\<forall>k l s r. get k l s = Inr r \<longrightarrow> length r \<le> l) \<longrightarrow>
         (\<forall>out. y = Inr out \<longrightarrow>
            out = pages \<or> int (length out) < cfg_maxPagesPerSync cfg + int limit)"
proof (rule getAllPages_loop.raw_induct
    [where P = "\<lambda>get cfg spaceKey limit pages start hasMore y.
       (\<forall>k l s r. get k l s = Inr r \<longrightarrow> length r \<le> l) \<longrightarrow>
       (\<forall>out. y = Inr out \<longrightarrow>
          out = pages \<or> int (length out) < cfg_maxPagesPerSync cfg + int limit)",
     OF _ assms])
  fix loop :: "(string \<Rightarrow> nat \<Rightarrow> nat \<Rightarrow> string + confluence_page list) \<Rightarrow> config \<Rightarrow> string \<Rightarrow> nat
     \<Rightarrow> confluence_page list \<Rightarrow> nat \<Rightarrow> bool \<Rightarrow> (string + confluence_page list) option"
    and get cfg spaceKey limit pages start hasMore y
  assume IH: "\<And>get cfg spaceKey limit pages start hasMore y.
      loop get cfg spaceKey limit pages start hasMore = Some y \<Longrightarrow>
      (\<forall>k l s r. get k l s = Inr r \<longrightarrow> length r \<le> l) \<longrightarrow>
      (\<forall>out. y = Inr out \<longrightarrow>
         out = pages \<or> int (length out) < cfg_maxPagesPerSync cfg + int limit)"
    and body: "(if hasMore \<and> int (length pages) < cfg_maxPagesPerSync cfg
      then (case get spaceKey limit start of
              Inl msg \<Rightarrow>
                Some (Inl (''Failed to fetch pages from space '' @ spaceKey @ '': '' @ msg))
            | Inr results \<Rightarrow>
                loop get cfg spaceKey limit (pages @ results) (start + limit)
                  (length results = limit))
      else Some (Inr pages)) = Some y"
  show "(\<forall>k l s r. get k l s = Inr r \<longrightarrow> length r \<le> l) \<longrightarrow>
         (\<forall>out. y = Inr out \<longrightarrow>
            out = pages \<or> int (length out) < cfg_maxPagesPerSync cfg + int limit)"
  proof (intro impI allI)
    fix out
    assume batches: "\<forall>k l s r. get k l s = Inr r \<longrightarrow> length r \<le> l"
      and y: "y = Inr out"
    show "out = pages \<or> int (length out) < cfg_maxPagesPerSync cfg + int limit"
    proof (cases "hasMore \<and> int (length pages) < cfg_maxPagesPerSync cfg")
      case False
      with body y show ?thesis by auto
    next
      case True
      show ?thesis
      proof (cases "get spaceKey limit start")
        case (Inl msg)
        with True body y show ?thesis by auto
      next
        case (Inr results)
        with True body have call: "loop get cfg spaceKey limit (pages @ results) (start + limit)
                          (length results = limit) = Some y"
          by simp
        have len: "length results \<le> limit"
          using batches Inr by blast
        from IH [OF call] batches y
        have "out = pages @ results \<or> int (length out) < cfg_maxPagesPerSync cfg + int limit"
          by blast
        with True len show ?thesis
          by auto
      qed
    qed
  qed
qed

lemma getAllPages_client_bound:
  assumes "getAllPages_client get cfg spaceKey limit = Some (Inr out)"
    and "\<forall>k l s r. get k l s = Inr r \<longrightarrow> length r \<le> l"
  shows "out = [] \<or> int (length out) < cfg_maxPagesPerSync cfg + int limit"
  using getAllPages_loop_bound_aux [OF assms(1) [unfolded getAllPages_client_def]] assms(2)
  by blast


end
